theory Spec2Isabelle
  imports Complex_Main "HOL-Library.AList" "HOL-Library.Sublist" "HOL-Library.Log_Nat"
begin

section \<open>Data model\<close>

text \<open>
  The daemon keeps five process-wide Go maps (\<^verbatim>\<open>counters\<close>, \<^verbatim>\<open>gauges\<close>,
  \<^verbatim>\<open>timers\<close>, \<^verbatim>\<open>sets\<close>, \<^verbatim>\<open>countInactivity\<close>) and reads its
  configuration from flag pointers (\<^verbatim>\<open>*debug\<close>, \<^verbatim>\<open>*persistCountKeys\<close>,
  \<^verbatim>\<open>*deleteGauges\<close>, \<^verbatim>\<open>*postfix\<close>, \<^verbatim>\<open>*flushInterval\<close>,
  \<^verbatim>\<open>percentThreshold\<close>). Their declarations are not part of
  \<^verbatim>\<open>graphite.go\<close> and \<^verbatim>\<open>openfalcon.go\<close>; the types below are the ones the
  two files use them at.

  \<^item> A Go map is an association list with pairwise distinct keys. A \<^verbatim>\<open>range\<close> loop
    visits the entries in list order; Go leaves the order unspecified, which is the
    arbitrary order of the list. An entry that a loop adds to a mapping is visited by a
    later loop at the place where \<open>AList.update\<close> puts it; the properties below are
    about the records of one key and the contents of the mappings, which do not depend
    on the order.
  \<^item> A \<^verbatim>\<open>float64\<close> value is a finite binary64 number, held as a rational;
    the arithmetic on it rounds (see below). Infinities and NaN are not values of the
    model: the README of the daemon states that only integers are supported for metric
    values, and no sum or product of this program leaves the finite range on them.
  \<^item> \<^verbatim>\<open>int64\<close> counts and timestamps are unbounded integers: the counts of this
    program stay below the number of records and below \<^verbatim>\<open>*persistCountKeys + 1\<close>.
  \<^item> A Go run-time panic is the \<open>Inl\<close> result of a function that can panic.
\<close>

type_synonym float64 = rat

subsection \<open>Arithmetic of \<^verbatim>\<open>float64\<close>\<close>

text \<open>
  \<open>round64 x\<close> is the IEEE 754 binary64 number nearest to the rational \<open>x\<close>, a tie
  going to the even significand: with \<open>e = floor (log2 |x|)\<close>, but at least \<open>-1022\<close>
  (the subnormal numbers), the binary64 numbers around \<open>x\<close> are the multiples of
  \<open>2 ^ (e - 52)\<close>. \<open>ilog2\<close> computes \<open>floor (log2 x)\<close> of a positive rational from the
  bit lengths of its numerator and denominator.

  The Go operators \<^verbatim>\<open>+\<close>, \<^verbatim>\<open>*\<close> and \<^verbatim>\<open>/\<close> on \<^verbatim>\<open>float64\<close> round the
  exact result to binary64, each operation on its own (no fused multiply-add), as the
  Go compiler does for amd64, the platform of the released binaries. The conversion
  \<^verbatim>\<open>float64(n)\<close> of a length \<open>n\<close> is exact, lengths being below \<open>2 ^ 53\<close>.
  \<open>is_float64\<close> holds of the rationals that are binary64 numbers.
\<close>

definition pow2 :: "int \<Rightarrow> rat" where
  "pow2 e = (if e \<ge> 0 then 2 ^ nat e else 1 / 2 ^ nat (- e))"

definition ilog2 :: "rat \<Rightarrow> int" where
  "ilog2 x = (case quotient_of x of (p, q) \<Rightarrow>
     (let d = bitlen p - bitlen q in if pow2 d \<le> x then d else d - 1))"

definition roundEven :: "rat \<Rightarrow> int" where
  "roundEven y =
     (let f = \<lfloor>y\<rfloor>; r = y - of_int f
      in if r < 1 / 2 then f else if r > 1 / 2 then f + 1 else if even f then f else f + 1)"

definition round64 :: "rat \<Rightarrow> float64" where
  "round64 x =
     (if x = 0 then 0
      else (let e = max (ilog2 \<bar>x\<bar>) (- 1022); u = pow2 (e - 52)
            in of_int (roundEven (x / u)) * u))"

definition fadd :: "float64 \<Rightarrow> float64 \<Rightarrow> float64" where
  "fadd a b = round64 (a + b)"

definition fmul :: "float64 \<Rightarrow> float64 \<Rightarrow> float64" where
  "fmul a b = round64 (a * b)"

definition fdiv :: "float64 \<Rightarrow> float64 \<Rightarrow> float64" where
  "fdiv a b = round64 (a / b)"

definition is_float64 :: "rat \<Rightarrow> bool" where
  "is_float64 x = (round64 x = x)"

datatype panic = IndexOutOfRange | SliceOutOfRange

text \<open>
  \<^verbatim>\<open>Percentile\<close>: the two fields that \<^verbatim>\<open>processTimers\<close> reads, \<^verbatim>\<open>pct.float\<close>
  (negative for a lower-tail percentile) and \<^verbatim>\<open>pct.str\<close> (the text it was
  configured with).
\<close>

record Percentile =
  float :: float64
  str :: string

record store =
  counters :: "(string \<times> float64) list"
  gauges :: "(string \<times> float64) list"
  timers :: "(string \<times> float64 list) list"
  sets :: "(string \<times> string list) list"
  countInactivity :: "(string \<times> int) list"

record config =
  debug :: bool
  persistCountKeys :: int
  deleteGauges :: bool
  postfix :: string
  flushInterval :: int
  percentThreshold :: "Percentile list"

text \<open>
  One line \<^verbatim>\<open>"<name> <value> <now>\n"\<close> of the buffer of the graphite backend: the
  name, the number whose decimal text \<^verbatim>\<open>fmt.Fprintf\<close> writes
  (\<^verbatim>\<open>strconv.FormatFloat\<close> of a \<^verbatim>\<open>float64\<close>, \<^verbatim>\<open>%d\<close> of an integer, or the
  literal \<^verbatim>\<open>0\<close>) and the timestamp. The buffer is the list of its lines.
\<close>

type_synonym line = "string \<times> float64 \<times> int"

record openFalconMsg =
  Metric :: string
  Endpoint :: string
  Tags :: string
  Value :: float64
  Timestamp :: int
  CounterType :: string
  Step :: int

definition DEFAULT_ENDPOINT :: string where
  "DEFAULT_ENDPOINT = ''statsd''"

section \<open>The open-falcon backend: metric names and packets\<close>

text \<open>
  \<^verbatim>\<open>strings.LastIndex(s, "/")\<close> of the Go library, for a separator of one byte: the
  index of the last occurrence of the byte in \<open>s\<close>, or \<open>-1\<close> when there is none.
\<close>

definition LastIndex :: "string \<Rightarrow> char \<Rightarrow> int" where
  "LastIndex s c =
     (if c \<in> set s then int (length s) - 1 - int (length (takeWhile (\<lambda>x. x \<noteq> c) (rev s)))
      else - 1)"

definition parseMetric :: "string \<Rightarrow> string \<times> string" where
  "parseMetric metric =
     (let name = metric;
          tags = [];
          index = LastIndex metric (CHR ''/'')
      in if index \<ge> 0 then (take (nat index) metric, drop (nat (index + 1)) metric)
         else (name, tags))"

definition appendPacket ::
  "config \<Rightarrow> string \<Rightarrow> float64 \<Rightarrow> int \<Rightarrow> openFalconMsg list \<Rightarrow> openFalconMsg list" where
  "appendPacket cfg metric val now packets =
     (case parseMetric metric of (realMetric, tags) \<Rightarrow>
        packets @ [\<lparr>Metric = realMetric, Endpoint = DEFAULT_ENDPOINT, Tags = tags,
                    Value = val, Timestamp = now, CounterType = ''GAUGE'',
                    Step = flushInterval cfg\<rparr>])"

section \<open>Timer names\<close>

text \<open>
  \<^verbatim>\<open>bucket[:len(bucket)-len(*postfix)]\<close>: Go panics when the upper bound of the slice
  is negative, that is when the postfix is longer than the key.
\<close>

definition bucketWithoutPostfix :: "string \<Rightarrow> string \<Rightarrow> panic + string" where
  "bucketWithoutPostfix bucket pfx =
     (if int (length bucket) - int (length pfx) < 0 then Inl SliceOutOfRange
      else Inr (take (nat (int (length bucket) - int (length pfx))) bucket))"

text \<open>
  The name of the record of one percentile, built by both backends from the same
  pieces: \<^verbatim>\<open>"%s.upper_%s%s"\<close> with \<^verbatim>\<open>pct.str\<close>, or \<^verbatim>\<open>"%s.lower_%s%s"\<close> with
  \<^verbatim>\<open>pct.str[1:]\<close>, which panics on an empty \<^verbatim>\<open>pct.str\<close>.
\<close>

definition pctMetric :: "string \<Rightarrow> string \<Rightarrow> Percentile \<Rightarrow> panic + string" where
  "pctMetric stem pfx pct =
     (if float pct \<ge> 0 then Inr (stem @ ''.upper_'' @ str pct @ pfx)
      else if length (str pct) < 1 then Inl SliceOutOfRange
      else Inr (stem @ ''.lower_'' @ drop 1 (str pct) @ pfx))"

section \<open>Percentile thresholds\<close>

text \<open>
  \<^verbatim>\<open>int(math.Floor(((abs / 100.0) * float64(count)) + 0.5))\<close>, decremented for an
  upper-tail percentile, with \<^verbatim>\<open>abs\<close> either \<^verbatim>\<open>pct.float\<close> or
  \<^verbatim>\<open>100 + pct.float\<close>. \<^verbatim>\<open>math.Floor\<close> is exact. The conversion to \<^verbatim>\<open>int\<close> is
  exact inside \<^verbatim>\<open>int64\<close>; outside, Go leaves its result to the platform (amd64
  gives \<open>- 2 ^ 63\<close>), and the index is outside every slice, as the floor itself is.
\<close>

definition indexOfPerc :: "Percentile \<Rightarrow> nat \<Rightarrow> int" where
  "indexOfPerc pct count =
     (let abs_v = (if float pct \<ge> 0 then float pct else fadd 100 (float pct));
          i = \<lfloor>fadd (fmul (fdiv abs_v 100) (of_nat count)) (1 / 2)\<rfloor>
      in if float pct \<ge> 0 then i - 1 else i)"

text \<open>
  The new value of \<^verbatim>\<open>maxAtThreshold\<close> after the \<^verbatim>\<open>if len(timer) > 1\<close> block of one
  iteration over \<^verbatim>\<open>pctls\<close>; \<^verbatim>\<open>timer[indexOfPerc]\<close> panics out of range.
\<close>

definition threshold :: "float64 list \<Rightarrow> Percentile \<Rightarrow> float64 \<Rightarrow> panic + float64" where
  "threshold timer pct maxAtThreshold =
     (if length timer > 1 then
        (let i = indexOfPerc pct (length timer)
         in if 0 \<le> i \<and> i < int (length timer) then Inr (timer ! nat i)
            else Inl IndexOutOfRange)
      else Inr maxAtThreshold)"

text \<open>A loop whose body can panic stops at the first panic.\<close>

fun foldE :: "('a \<Rightarrow> 'b \<Rightarrow> panic + 'b) \<Rightarrow> 'a list \<Rightarrow> 'b \<Rightarrow> panic + 'b" where
  "foldE f [] acc = Inr acc"
| "foldE f (x # xs) acc = (case f x acc of Inl p \<Rightarrow> Inl p | Inr acc' \<Rightarrow> foldE f xs acc')"

text \<open>
  \<^verbatim>\<open>uniqueSet := map[string]bool{}; for _, str := range set { uniqueSet[str] = true }\<close>
\<close>

definition uniqueSet :: "string list \<Rightarrow> (string \<times> bool) list" where
  "uniqueSet members = fold (\<lambda>str u. AList.update str True u) members []"

text \<open>\<^verbatim>\<open>m[k]\<close> of a Go map of integers: the zero value for an absent key.\<close>

definition lookup0 :: "(string \<times> int) list \<Rightarrow> string \<Rightarrow> int" where
  "lookup0 m k = (case map_of m k of None \<Rightarrow> 0 | Some c \<Rightarrow> c)"

section \<open>The graphite backend\<close>

text \<open>
  Each \<^verbatim>\<open>process...\<close> function takes the buffer and the store and returns the number
  of records, the buffer and the store. The loop bodies are functions of one map entry.
\<close>

type_synonym gstate = "int \<times> line list \<times> store"

definition countersBody :: "int \<Rightarrow> string \<times> float64 \<Rightarrow> gstate \<Rightarrow> gstate" where
  "countersBody now = (\<lambda>(bucket, val) (num, buffer, s).
     (num + 1, buffer @ [(bucket, val, now)],
      s\<lparr>counters := AList.delete bucket (counters s),
        countInactivity := AList.update bucket 0 (countInactivity s)\<rparr>))"

definition inactivityBody :: "config \<Rightarrow> int \<Rightarrow> string \<times> int \<Rightarrow> gstate \<Rightarrow> gstate" where
  "inactivityBody cfg now = (\<lambda>(bucket, purgeCount) (num, buffer, s).
     (let (num, buffer) =
            (if purgeCount > 0 then (num + 1, buffer @ [(bucket, 0, now)]) else (num, buffer));
          ci = AList.update bucket (lookup0 (countInactivity s) bucket + 1) (countInactivity s);
          ci = (if lookup0 ci bucket > persistCountKeys cfg then AList.delete bucket ci else ci)
      in (num, buffer, s\<lparr>countInactivity := ci\<rparr>)))"

definition processCounters :: "config \<Rightarrow> int \<Rightarrow> line list \<times> store \<Rightarrow> gstate" where
  "processCounters cfg now = (\<lambda>(buffer, s).
     (let st = fold (countersBody now) (counters s) (0, buffer, s)
      in fold (inactivityBody cfg now) (countInactivity (snd (snd st))) st))"

definition gaugesBody :: "config \<Rightarrow> int \<Rightarrow> string \<times> float64 \<Rightarrow> gstate \<Rightarrow> gstate" where
  "gaugesBody cfg now = (\<lambda>(bucket, currentValue) (num, buffer, s).
     (num + 1, buffer @ [(bucket, currentValue, now)],
      if deleteGauges cfg then s\<lparr>gauges := AList.delete bucket (gauges s)\<rparr> else s))"

definition processGauges :: "config \<Rightarrow> int \<Rightarrow> line list \<times> store \<Rightarrow> gstate" where
  "processGauges cfg now = (\<lambda>(buffer, s). fold (gaugesBody cfg now) (gauges s) (0, buffer, s))"

definition setsBody :: "int \<Rightarrow> string \<times> string list \<Rightarrow> gstate \<Rightarrow> gstate" where
  "setsBody now = (\<lambda>(bucket, members) (num, buffer, s).
     (num, buffer @ [(bucket, of_nat (length (uniqueSet members)), now)],
      s\<lparr>sets := AList.delete bucket (sets s)\<rparr>))"

definition processSets :: "int \<Rightarrow> line list \<times> store \<Rightarrow> gstate" where
  "processSets now = (\<lambda>(buffer, s).
     fold (setsBody now) (sets s) (int (length (sets s)), buffer, s))"

definition pctBody ::
  "config \<Rightarrow> int \<Rightarrow> string \<Rightarrow> float64 list \<Rightarrow> Percentile \<Rightarrow> float64 \<times> line list
     \<Rightarrow> panic + float64 \<times> line list" where
  "pctBody cfg now stem timer pct = (\<lambda>(maxAtThreshold, buffer).
     (case threshold timer pct maxAtThreshold of
        Inl p \<Rightarrow> Inl p
      | Inr maxAtThreshold \<Rightarrow>
          (case pctMetric stem (postfix cfg) pct of
             Inl p \<Rightarrow> Inl p
           | Inr name \<Rightarrow> Inr (maxAtThreshold, buffer @ [(name, maxAtThreshold, now)]))))"

definition timersBody ::
  "config \<Rightarrow> int \<Rightarrow> Percentile list \<Rightarrow> string \<times> float64 list \<Rightarrow> gstate \<Rightarrow> panic + gstate" where
  "timersBody cfg now pctls = (\<lambda>(bucket, unsorted) (num, buffer, s).
     (case bucketWithoutPostfix bucket (postfix cfg) of
        Inl p \<Rightarrow> Inl p
      | Inr stem \<Rightarrow>
          (let num = num + 1;
               timer = sort unsorted
           in if length timer = 0 then Inl IndexOutOfRange
              else
                (let min_v = timer ! 0;
                     max_v = timer ! (length timer - 1);
                     maxAtThreshold = max_v;
                     count = length timer;
                     sum_v = fold (\<lambda>v acc. fadd acc v) timer 0;
                     mean = fdiv sum_v (of_nat (length timer))
                 in case foldE (pctBody cfg now stem timer) pctls (maxAtThreshold, buffer) of
                      Inl p \<Rightarrow> Inl p
                    | Inr (maxAtThreshold, buffer) \<Rightarrow>
                        Inr (num,
                             buffer @
                             [(stem @ ''.mean'' @ postfix cfg, mean, now),
                              (stem @ ''.upper'' @ postfix cfg, max_v, now),
                              (stem @ ''.lower'' @ postfix cfg, min_v, now),
                              (stem @ ''.count'' @ postfix cfg, of_nat count, now)],
                             s\<lparr>timers := AList.delete bucket (timers s)\<rparr>)))))"

definition processTimers ::
  "config \<Rightarrow> int \<Rightarrow> Percentile list \<Rightarrow> line list \<times> store \<Rightarrow> panic + gstate" where
  "processTimers cfg now pctls = (\<lambda>(buffer, s).
     foldE (timersBody cfg now pctls) (timers s) (0, buffer, s))"

text \<open>
  The network is a parameter of \<^verbatim>\<open>submit\<close>: whether \<^verbatim>\<open>net.Dial\<close>,
  \<^verbatim>\<open>client.SetDeadline\<close>, \<^verbatim>\<open>client.Write\<close>, \<^verbatim>\<open>json.Marshal\<close> and
  \<^verbatim>\<open>client.Do\<close> succeed. \<^verbatim>\<open>submit\<close> returns its error (\<open>None\<close> for
  \<^verbatim>\<open>nil\<close>), the network operations it performed, in order, and the store. Calls of
  \<^verbatim>\<open>log.Printf\<close> are not modelled, and \<^verbatim>\<open>http.NewRequest\<close> is taken to succeed.
  A panic of a flush procedure is the result of \<^verbatim>\<open>submit\<close>.
\<close>

record network =
  dial_ok :: bool
  setDeadline_ok :: bool
  write_ok :: bool
  marshal_ok :: bool
  do_ok :: bool

datatype error = DialFailed | SetDeadlineFailed | WriteFailed | MarshalFailed | RequestFailed

datatype io = Dial | SetDeadline | Write "line list" | Close | Post "openFalconMsg list"

definition graphite_submit ::
  "config \<Rightarrow> network \<Rightarrow> int \<Rightarrow> store \<Rightarrow> panic + error option \<times> io list \<times> store" where
  "graphite_submit cfg net now s =
     (let buffer = []; num = 0
      in if \<not> dial_ok net then
           (if debug cfg then
              (case processCounters cfg now (buffer, s) of (_, buffer, s) \<Rightarrow>
               case processGauges cfg now (buffer, s) of (_, buffer, s) \<Rightarrow>
               case processTimers cfg now (percentThreshold cfg) (buffer, s) of
                 Inl p \<Rightarrow> Inl p
               | Inr (_, buffer, s) \<Rightarrow>
               case processSets now (buffer, s) of (_, buffer, s) \<Rightarrow>
                 Inr (Some DialFailed, [Dial], s))
            else Inr (Some DialFailed, [Dial], s))
         else if \<not> setDeadline_ok net then
           Inr (Some SetDeadlineFailed, [Dial, SetDeadline, Close], s)
         else
           (case processCounters cfg now (buffer, s) of (n, buffer, s) \<Rightarrow>
            let num = num + n in
            case processGauges cfg now (buffer, s) of (n, buffer, s) \<Rightarrow>
            let num = num + n in
            case processTimers cfg now (percentThreshold cfg) (buffer, s) of
              Inl p \<Rightarrow> Inl p
            | Inr (n, buffer, s) \<Rightarrow>
            let num = num + n in
            case processSets now (buffer, s) of (n, buffer, s) \<Rightarrow>
            let num = num + n in
            if num = 0 then Inr (None, [Dial, SetDeadline, Close], s)
            else if \<not> write_ok net then
              Inr (Some WriteFailed, [Dial, SetDeadline, Write buffer, Close], s)
            else Inr (None, [Dial, SetDeadline, Write buffer, Close], s)))"

section \<open>The open-falcon backend\<close>

text \<open>
  The methods of \<^verbatim>\<open>openFalconBackend\<close> read and write one field of the backend,
  \<^verbatim>\<open>bd.packets\<close>, and the store.
\<close>

type_synonym ostate = "openFalconMsg list \<times> store"

definition openFalcon_countersBody ::
  "config \<Rightarrow> int \<Rightarrow> string \<times> float64 \<Rightarrow> ostate \<Rightarrow> ostate" where
  "openFalcon_countersBody cfg now = (\<lambda>(bucket, val) (packets, s).
     (appendPacket cfg bucket val now packets,
      s\<lparr>counters := AList.delete bucket (counters s),
        countInactivity := AList.update bucket 0 (countInactivity s)\<rparr>))"

definition openFalcon_inactivityBody ::
  "config \<Rightarrow> int \<Rightarrow> string \<times> int \<Rightarrow> ostate \<Rightarrow> ostate" where
  "openFalcon_inactivityBody cfg now = (\<lambda>(bucket, purgeCount) (packets, s).
     (let packets = (if purgeCount > 0 then appendPacket cfg bucket 0 now packets else packets);
          ci = AList.update bucket (lookup0 (countInactivity s) bucket + 1) (countInactivity s);
          ci = (if lookup0 ci bucket > persistCountKeys cfg then AList.delete bucket ci else ci)
      in (packets, s\<lparr>countInactivity := ci\<rparr>)))"

definition openFalcon_processCounters :: "config \<Rightarrow> int \<Rightarrow> ostate \<Rightarrow> ostate" where
  "openFalcon_processCounters cfg now = (\<lambda>(packets, s).
     (let st = fold (openFalcon_countersBody cfg now) (counters s) (packets, s)
      in fold (openFalcon_inactivityBody cfg now) (countInactivity (snd st)) st))"

definition openFalcon_gaugesBody ::
  "config \<Rightarrow> int \<Rightarrow> string \<times> float64 \<Rightarrow> ostate \<Rightarrow> ostate" where
  "openFalcon_gaugesBody cfg now = (\<lambda>(bucket, currentValue) (packets, s).
     (appendPacket cfg bucket currentValue now packets,
      if deleteGauges cfg then s\<lparr>gauges := AList.delete bucket (gauges s)\<rparr> else s))"

definition openFalcon_processGauges :: "config \<Rightarrow> int \<Rightarrow> ostate \<Rightarrow> ostate" where
  "openFalcon_processGauges cfg now = (\<lambda>(packets, s).
     fold (openFalcon_gaugesBody cfg now) (gauges s) (packets, s))"

definition openFalcon_setsBody ::
  "config \<Rightarrow> int \<Rightarrow> string \<times> string list \<Rightarrow> ostate \<Rightarrow> ostate" where
  "openFalcon_setsBody cfg now = (\<lambda>(bucket, members) (packets, s).
     (appendPacket cfg bucket (of_nat (length (uniqueSet members))) now packets,
      s\<lparr>sets := AList.delete bucket (sets s)\<rparr>))"

definition openFalcon_processSets :: "config \<Rightarrow> int \<Rightarrow> ostate \<Rightarrow> ostate" where
  "openFalcon_processSets cfg now = (\<lambda>(packets, s).
     fold (openFalcon_setsBody cfg now) (sets s) (packets, s))"

definition openFalcon_pctBody ::
  "config \<Rightarrow> int \<Rightarrow> string \<Rightarrow> float64 list \<Rightarrow> Percentile
     \<Rightarrow> float64 \<times> openFalconMsg list \<Rightarrow> panic + float64 \<times> openFalconMsg list" where
  "openFalcon_pctBody cfg now stem timer pct = (\<lambda>(maxAtThreshold, packets).
     (case threshold timer pct maxAtThreshold of
        Inl p \<Rightarrow> Inl p
      | Inr maxAtThreshold \<Rightarrow>
          (case pctMetric stem (postfix cfg) pct of
             Inl p \<Rightarrow> Inl p
           | Inr metric \<Rightarrow>
               Inr (maxAtThreshold, appendPacket cfg metric maxAtThreshold now packets))))"

definition openFalcon_timersBody ::
  "config \<Rightarrow> int \<Rightarrow> Percentile list \<Rightarrow> string \<times> float64 list \<Rightarrow> ostate \<Rightarrow> panic + ostate" where
  "openFalcon_timersBody cfg now pctls = (\<lambda>(bucket, unsorted) (packets, s).
     (case bucketWithoutPostfix bucket (postfix cfg) of
        Inl p \<Rightarrow> Inl p
      | Inr stem \<Rightarrow>
          (let timer = sort unsorted
           in if length timer = 0 then Inl IndexOutOfRange
              else
                (let min_v = timer ! 0;
                     max_v = timer ! (length timer - 1);
                     maxAtThreshold = max_v;
                     count = length timer;
                     sum_v = fold (\<lambda>v acc. fadd acc v) timer 0;
                     mean = fdiv sum_v (of_nat (length timer))
                 in case foldE (openFalcon_pctBody cfg now stem timer) pctls
                           (maxAtThreshold, packets) of
                      Inl p \<Rightarrow> Inl p
                    | Inr (maxAtThreshold, packets) \<Rightarrow>
                        (let packets = appendPacket cfg (stem @ ''.mean'' @ postfix cfg) mean now packets;
                             packets = appendPacket cfg (stem @ ''.upper'' @ postfix cfg) max_v now packets;
                             packets = appendPacket cfg (stem @ ''.lower'' @ postfix cfg) min_v now packets;
                             packets = appendPacket cfg (stem @ ''.count'' @ postfix cfg)
                                         (of_nat count) now packets
                         in Inr (packets, s\<lparr>timers := AList.delete bucket (timers s)\<rparr>))))))"

definition openFalcon_processTimers ::
  "config \<Rightarrow> int \<Rightarrow> Percentile list \<Rightarrow> ostate \<Rightarrow> panic + ostate" where
  "openFalcon_processTimers cfg now pctls = (\<lambda>(packets, s).
     foldE (openFalcon_timersBody cfg now pctls) (timers s) (packets, s))"

text \<open>
  \<^verbatim>\<open>submit\<close> returns its error, the network operations it performed, \<^verbatim>\<open>bd.packets\<close>
  (set to \<^verbatim>\<open>nil\<close> by the deferred function on every return) and the store.
\<close>

definition openFalcon_submit ::
  "config \<Rightarrow> network \<Rightarrow> int \<Rightarrow> ostate
     \<Rightarrow> panic + error option \<times> io list \<times> openFalconMsg list \<times> store" where
  "openFalcon_submit cfg net now = (\<lambda>(packets, s).
     (case openFalcon_processCounters cfg now (packets, s) of (packets, s) \<Rightarrow>
      case openFalcon_processGauges cfg now (packets, s) of (packets, s) \<Rightarrow>
      case openFalcon_processTimers cfg now (percentThreshold cfg) (packets, s) of
        Inl p \<Rightarrow> Inl p
      | Inr (packets, s) \<Rightarrow>
      case openFalcon_processSets cfg now (packets, s) of (packets, s) \<Rightarrow>
      let num = length packets
      in if num = 0 then Inr (None, [], [], s)
         else if \<not> marshal_ok net then Inr (Some MarshalFailed, [], [], s)
         else if \<not> do_ok net then Inr (Some RequestFailed, [Post packets], [], s)
         else Inr (None, [Post packets], [], s)))"

section \<open>Relating the two backends\<close>

text \<open>
  The two backends run the same flush procedures; where the graphite backend appends a
  line to its buffer, the open-falcon backend calls \<^verbatim>\<open>appendPacket\<close> with the same
  name, value and timestamp. \<open>appendLines\<close> is that sequence of calls for a list of
  lines, and \<open>sim\<close> relates the states of the two backends after the same steps.
\<close>

definition appendLines :: "config \<Rightarrow> line list \<Rightarrow> openFalconMsg list \<Rightarrow> openFalconMsg list" where
  "appendLines cfg ls packets = fold (\<lambda>(name, v, t). appendPacket cfg name v t) ls packets"

definition sim :: "config \<Rightarrow> openFalconMsg list \<Rightarrow> gstate \<Rightarrow> ostate \<Rightarrow> bool" where
  "sim cfg p0 = (\<lambda>(n, buf, s) (pk, s'). s' = s \<and> pk = appendLines cfg buf p0)"

definition simP :: "config \<Rightarrow> openFalconMsg list \<Rightarrow> float64 \<times> line list \<Rightarrow> float64 \<times> openFalconMsg list \<Rightarrow> bool" where
  "simP cfg p0 = (\<lambda>(m, buf) (m', pk). m' = m \<and> pk = appendLines cfg buf p0)"

section \<open>Timer buckets that flush without a panic\<close>

text \<open>
  \<open>pct_ok\<close>: the index of the percentile is inside the sorted samples and a lower-tail
  percentile has a non-empty text. \<open>timer_ok\<close>: the key is at least as long as the
  postfix, the bucket has a sample and every percentile is fine for it. \<open>pctLine\<close> is
  the line of one percentile of such a bucket.
\<close>

definition pct_ok :: "float64 list \<Rightarrow> Percentile \<Rightarrow> bool" where
  "pct_ok timer pct =
     ((length timer > 1 \<longrightarrow>
         0 \<le> indexOfPerc pct (length timer) \<and> indexOfPerc pct (length timer) < int (length timer)) \<and>
      (float pct < 0 \<longrightarrow> str pct \<noteq> []))"

definition timer_ok :: "config \<Rightarrow> Percentile list \<Rightarrow> string \<times> float64 list \<Rightarrow> bool" where
  "timer_ok cfg pctls = (\<lambda>(bucket, samples).
     length (postfix cfg) \<le> length bucket \<and> samples \<noteq> [] \<and>
     list_all (pct_ok (sort samples)) pctls)"

definition pctLine ::
  "config \<Rightarrow> int \<Rightarrow> string \<Rightarrow> float64 list \<Rightarrow> Percentile \<Rightarrow> line" where
  "pctLine cfg now stem timer pct =
     (if float pct \<ge> 0 then stem @ ''.upper_'' @ str pct @ postfix cfg
      else stem @ ''.lower_'' @ drop 1 (str pct) @ postfix cfg,
      if length timer > 1 then timer ! nat (indexOfPerc pct (length timer))
      else timer ! (length timer - 1),
      now)"

section \<open>Counters: the inactivity mapping after the first loop\<close>

text \<open>
  \<open>zeroed cs ci\<close> is \<^verbatim>\<open>countInactivity\<close> after the statements
  \<^verbatim>\<open>countInactivity[bucket] = 0\<close> of the first loop of \<^verbatim>\<open>processCounters\<close>, run
  over the counters \<open>cs\<close> from the mapping \<open>ci\<close>.
\<close>

definition zeroed :: "(string \<times> float64) list \<Rightarrow> (string \<times> int) list \<Rightarrow> (string \<times> int) list" where
  "zeroed cs ci = fold (\<lambda>(k, v). AList.update k 0) cs ci"

section \<open>Ingestion of counters\<close>

text \<open>
  Modelled from the spec: the ingestion path, which is not among the sources. "Counters
  accumulate by summation of incoming deltas": an increment of a bucket adds the delta
  to the value of the bucket, an absent bucket counting as 0.
\<close>

definition incrementCounter :: "string \<times> float64 \<Rightarrow> store \<Rightarrow> store" where
  "incrementCounter = (\<lambda>(bucket, delta) s.
     s\<lparr>counters :=
         AList.update bucket
           ((case map_of (counters s) bucket of None \<Rightarrow> 0 | Some v \<Rightarrow> v) + delta)
           (counters s)\<rparr>)"

section \<open>Runs of flush cycles\<close>

text \<open>
  A run of flush cycles of the counters, one element per cycle: the time of the flush
  and the counters mapping that the ingestion path has built since the previous flush,
  which left it empty. The result is the list of the buffers of the cycles and the last
  store.
\<close>

fun counterCycles ::
  "config \<Rightarrow> (int \<times> (string \<times> float64) list) list \<Rightarrow> store \<Rightarrow> line list list \<times> store" where
  "counterCycles cfg [] s = ([], s)"
| "counterCycles cfg ((now, incoming) # cycles) s =
     (case processCounters cfg now ([], s\<lparr>counters := incoming\<rparr>) of (num, buffer, s') \<Rightarrow>
      case counterCycles cfg cycles s' of (out, s'') \<Rightarrow> (buffer # out, s''))"

fun openFalcon_counterCycles ::
  "config \<Rightarrow> (int \<times> (string \<times> float64) list) list \<Rightarrow> store
     \<Rightarrow> openFalconMsg list list \<times> store" where
  "openFalcon_counterCycles cfg [] s = ([], s)"
| "openFalcon_counterCycles cfg ((now, incoming) # cycles) s =
     (case openFalcon_processCounters cfg now ([], s\<lparr>counters := incoming\<rparr>) of
        (packets, s') \<Rightarrow>
      case openFalcon_counterCycles cfg cycles s' of (out, s'') \<Rightarrow> (packets # out, s''))"

section \<open>Properties\<close>

subsection \<open>The rounding of \<^verbatim>\<open>float64\<close>\<close>

text \<open>
  \<open>ilog2 x\<close> is the exponent of the binade of a positive \<open>x\<close>; \<open>round64 x\<close> is a
  multiple of the unit in the last place of that binade, at most half a unit away from
  \<open>x\<close>, the even multiple at a tie. Some values: the binary64 numbers of \<open>0.58\<close>, \<open>1/3\<close>,
  \<open>0.1\<close> and \<open>-0.4\<close>, and the ties above \<open>2 ^ 53\<close>.
\<close>

lemma pow2_powi: "pow2 e = 2 powi e"
proof (cases "0 \<le> e")
  case True
  then show ?thesis by (simp add: pow2_def power_int_def)
next
  case False
  then show ?thesis by (simp add: pow2_def power_int_def inverse_eq_divide power_one_over)
qed

lemma bitlen_rat_bounds:
  assumes "0 < (m :: int)"
  shows "pow2 (bitlen m - 1) \<le> of_int m" and "of_int m < pow2 (bitlen m)"
proof -
  from assms have b1: "1 \<le> bitlen m" using bitlen_eq_zero_iff [of m] bitlen_nonneg [of m] by linarith
  from bitlen_bounds [OF assms] have l: "2 ^ nat (bitlen m - 1) \<le> m" and u: "m < 2 ^ nat (bitlen m)"
    by simp_all
  have "pow2 (bitlen m - 1) = of_int (2 ^ nat (bitlen m - 1))"
    using b1 by (simp add: pow2_def)
  also have "\<dots> \<le> of_int m" using l by (simp only: of_int_le_iff)
  finally show "pow2 (bitlen m - 1) \<le> of_int m" .
  have "(of_int m :: rat) < of_int (2 ^ nat (bitlen m))" using u by (simp only: of_int_less_iff)
  also have "\<dots> = pow2 (bitlen m)" using b1 by (simp add: pow2_def)
  finally show "of_int m < pow2 (bitlen m)" .
qed

lemma ilog2_bounds:
  assumes "0 < x"
  shows "pow2 (ilog2 x) \<le> x" and "x < pow2 (ilog2 x + 1)"
proof -
  obtain p q where pq: "quotient_of x = (p, q)" by (cases "quotient_of x")
  then have q: "0 < q" by (rule quotient_of_denom_pos)
  from pq have x: "x = of_int p / of_int q" by (rule quotient_of_div)
  with assms q have p: "0 < p" by (simp add: zero_less_divide_iff)
  let ?d = "bitlen p - bitlen q"
  note P = bitlen_rat_bounds [OF p] and Q = bitlen_rat_bounds [OF q]
  have qpos: "(0 :: rat) < of_int q" using q by simp
  have pw: "(0 :: rat) < pow2 e" for e by (simp add: pow2_powi)
  have lo: "pow2 (?d - 1) \<le> x"
  proof -
    have "pow2 (?d - 1) * of_int q \<le> pow2 (?d - 1) * pow2 (bitlen q)"
      using Q(2) pw [of "?d - 1"] by (simp add: mult_le_cancel_left)
    also have "\<dots> = pow2 (bitlen p - 1)"
      by (simp add: pow2_powi power_int_add [symmetric])
    also have "\<dots> \<le> of_int p" by (rule P(1))
    finally show ?thesis using qpos by (simp add: x pos_le_divide_eq)
  qed
  have hi: "x < pow2 (?d + 1)"
  proof -
    have "of_int p < pow2 (bitlen p)" by (rule P(2))
    also have "\<dots> = pow2 (?d + 1) * pow2 (bitlen q - 1)"
      by (simp add: pow2_powi power_int_add [symmetric])
    also have "\<dots> \<le> pow2 (?d + 1) * of_int q"
      using Q(1) pw [of "?d + 1"] by (simp add: mult_le_cancel_left)
    finally show ?thesis using qpos by (simp add: x pos_divide_less_eq)
  qed
  have il: "ilog2 x = (if pow2 ?d \<le> x then ?d else ?d - 1)"
    by (simp add: ilog2_def pq Let_def)
  show "pow2 (ilog2 x) \<le> x" using lo by (simp add: il)
  show "x < pow2 (ilog2 x + 1)" using hi by (auto simp: il not_le)
qed

text \<open>Rounding moves a number by at most half a unit in the last place.\<close>

lemma roundEven_near: "\<bar>of_int (roundEven y) - y\<bar> \<le> 1 / 2"
proof -
  have f: "of_int \<lfloor>y\<rfloor> \<le> y" "y < of_int \<lfloor>y\<rfloor> + 1" by linarith+
  show ?thesis
  proof (cases "y - of_int \<lfloor>y\<rfloor> < 1 / 2")
    case True
    then show ?thesis using f by (simp add: roundEven_def Let_def abs_le_iff)
  next
    case False
    note nlt = this
    show ?thesis
    proof (cases "y - of_int \<lfloor>y\<rfloor> > 1 / 2")
      case True
      then show ?thesis using f nlt by (simp add: roundEven_def Let_def abs_le_iff)
    next
      case False
      with nlt have "y - of_int \<lfloor>y\<rfloor> = 1 / 2" by simp
      then show ?thesis using f by (auto simp: roundEven_def Let_def abs_le_iff)
    qed
  qed
qed

lemma round64_nearest:
  assumes "x \<noteq> 0"
  shows "round64 x = of_int (roundEven (x / pow2 (max (ilog2 \<bar>x\<bar>) (- 1022) - 52))) *
           pow2 (max (ilog2 \<bar>x\<bar>) (- 1022) - 52)"
    and "\<bar>round64 x - x\<bar> \<le> pow2 (max (ilog2 \<bar>x\<bar>) (- 1022) - 52) / 2"
proof -
  let ?u = "pow2 (max (ilog2 \<bar>x\<bar>) (- 1022) - 52)"
  have u: "0 < ?u" by (simp add: pow2_powi)
  show r: "round64 x = of_int (roundEven (x / ?u)) * ?u"
    using assms by (simp add: round64_def Let_def)
  have "round64 x - x = (of_int (roundEven (x / ?u)) - x / ?u) * ?u"
    using u by (simp add: r algebra_simps)
  then have "\<bar>round64 x - x\<bar> = \<bar>of_int (roundEven (x / ?u)) - x / ?u\<bar> * ?u"
    using u by (simp add: abs_mult)
  also have "\<dots> \<le> 1 / 2 * ?u"
    using roundEven_near [of "x / ?u"] u by (simp only: mult_le_cancel_right) simp
  finally show "\<bar>round64 x - x\<bar> \<le> ?u / 2" by simp
qed

lemma round64_values:
  "round64 (58 / 100) = 5224175567749775 / 9007199254740992"
  "round64 (1 / 3) = 6004799503160661 / 18014398509481984"
  "round64 (1 / 10) = 3602879701896397 / 36028797018963968"
  "round64 (- 4 / 10) = - (3602879701896397 / 9007199254740992)"
  "round64 9007199254740993 = 9007199254740992"
  "round64 9007199254740995 = 9007199254740996"
  "round64 (- 9007199254740993) = - 9007199254740992"
  "round64 7 = 7"
  "round64 (1 / 2) = 1 / 2"
  by code_simp+

subsection \<open>Metric names\<close>

lemma LastIndex_split:
  assumes "c \<in> set s"
  shows "0 \<le> LastIndex s c" and "LastIndex s c < int (length s)"
    and "s = take (nat (LastIndex s c)) s @ c # drop (nat (LastIndex s c + 1)) s"
    and "c \<notin> set (drop (nat (LastIndex s c + 1)) s)"
proof -
  let ?t = "takeWhile (\<lambda>x. x \<noteq> c) (rev s)"
  let ?d = "dropWhile (\<lambda>x. x \<noteq> c) (rev s)"
  from assms have "c \<in> set (rev s)" by simp
  then have dne: "?d \<noteq> []" by auto
  then have hd: "hd ?d = c" using hd_dropWhile [of "\<lambda>x. x \<noteq> c" "rev s"] by simp
  from dne hd obtain r where d: "?d = c # r" by (cases ?d) auto
  have "rev s = ?t @ c # r" using takeWhile_dropWhile_id [of "\<lambda>x. x \<noteq> c" "rev s"] d by simp
  then have "rev (rev s) = rev (?t @ c # r)" by simp
  then have s: "s = rev r @ c # rev ?t" by simp
  have len: "length s = length r + 1 + length ?t" using arg_cong [OF s, of length] by simp
  have li: "LastIndex s c = int (length r)" using assms len by (simp add: LastIndex_def)
  show "0 \<le> LastIndex s c" using li by simp
  show "LastIndex s c < int (length s)" using li len by simp
  have tk: "take (length r) s = rev r" using s by (metis append_eq_conv_conj length_rev)
  have dr: "drop (Suc (length r)) s = rev ?t"
    using s by (metis append_eq_conv_conj length_rev drop_Suc tl_drop list.sel(3) drop_all
        append_Nil drop_append diff_self_eq_0 drop_0 order_refl)
  have n1: "nat (LastIndex s c) = length r" using li by simp
  have n2: "nat (LastIndex s c + 1) = Suc (length r)" using li by simp
  show "s = take (nat (LastIndex s c)) s @ c # drop (nat (LastIndex s c + 1)) s"
    unfolding n1 n2 tk dr using s .
  have "c \<notin> set ?t" using set_takeWhileD by fastforce
  then show "c \<notin> set (drop (nat (LastIndex s c + 1)) s)" unfolding n2 dr by simp
qed


subsection \<open>Loops in closed form\<close>

lemma filter_delete: "filter (\<lambda>e. fst e \<notin> A) (AList.delete k m) = filter (\<lambda>e. fst e \<notin> insert k A) m"
  by (induction m) (auto simp: AList.delete_eq)

lemma filter_all_keys: "filter (\<lambda>e. fst e \<notin> fst ` set m) m = []"
  by (induction m) (auto simp: filter_empty_conv)

lemma gaugesBody_apply:
  "gaugesBody cfg now (k, v) (n, buf, s) =
     (n + 1, buf @ [(k, v, now)],
      if deleteGauges cfg then s\<lparr>gauges := AList.delete k (gauges s)\<rparr> else s)"
  by (simp add: gaugesBody_def)

lemma setsBody_apply:
  "setsBody now (k, ms) (n, buf, s) =
     (n, buf @ [(k, of_nat (length (uniqueSet ms)), now)],
      s\<lparr>sets := AList.delete k (sets s)\<rparr>)"
  by (simp add: setsBody_def)

lemma fold_gaugesBody:
  "fold (gaugesBody cfg now) xs (n, buf, s) =
     (n + int (length xs), buf @ map (\<lambda>(k, v). (k, v, now)) xs,
      if deleteGauges cfg then s\<lparr>gauges := filter (\<lambda>e. fst e \<notin> fst ` set xs) (gauges s)\<rparr> else s)"
proof (induction xs arbitrary: n buf s)
  case Nil
  then show ?case by simp
next
  case (Cons x xs)
  obtain k v where x: "x = (k, v)" by (cases x)
  show ?case
    by (simp add: x gaugesBody_apply Cons.IH filter_delete)
qed

lemma fold_setsBody:
  "fold (setsBody now) xs (n, buf, s) =
     (n, buf @ map (\<lambda>(k, ms). (k, of_nat (length (uniqueSet ms)), now)) xs,
      s\<lparr>sets := filter (\<lambda>e. fst e \<notin> fst ` set xs) (sets s)\<rparr>)"
proof (induction xs arbitrary: n buf s)
  case Nil
  then show ?case by simp
next
  case (Cons x xs)
  obtain k v where x: "x = (k, v)" by (cases x)
  show ?case
    by (simp add: x setsBody_apply Cons.IH filter_delete)
qed

lemma fold_update_True:
  "distinct (map fst u) \<Longrightarrow>
   distinct (map fst (fold (\<lambda>str u. AList.update str True u) ms u)) \<and>
   fst ` set (fold (\<lambda>str u. AList.update str True u) ms u) = set ms \<union> fst ` set u"
  by (induction ms arbitrary: u) (auto simp: distinct_update dom_update)

lemma length_uniqueSet: "length (uniqueSet ms) = card (set ms)"
proof -
  let ?u = "uniqueSet ms"
  have d: "distinct (map fst ?u)" and k: "fst ` set ?u = set ms"
    using fold_update_True [of "[]" ms] by (simp_all add: uniqueSet_def)
  have "length ?u = length (map fst ?u)" by simp
  also have "\<dots> = card (set (map fst ?u))" using d by (simp only: distinct_card)
  also have "\<dots> = card (set ms)" using k by simp
  finally show ?thesis .
qed

lemma appendLines_snoc:
  "appendLines cfg (ls @ [(name, v, t)]) p0 = appendPacket cfg name v t (appendLines cfg ls p0)"
  by (simp add: appendLines_def)

lemma appendLines_Cons:
  "appendLines cfg ((name, v, t) # ls) p0 = appendLines cfg ls (appendPacket cfg name v t p0)"
  by (simp add: appendLines_def)

lemma appendLines_Nil: "appendLines cfg [] p0 = p0"
  by (simp add: appendLines_def)

lemma appendLines_append:
  "appendLines cfg (ls @ ls') p0 = appendLines cfg ls' (appendLines cfg ls p0)"
  by (simp add: appendLines_def)

lemma fold_sim:
  assumes "\<And>x a b. R a b \<Longrightarrow> R (f x a) (g x b)" and "R a b"
  shows "R (fold f xs a) (fold g xs b)"
  using assms(2) by (induction xs arbitrary: a b) (auto intro: assms(1))

lemma sim_gaugesBody:
  "sim cfg p0 a b \<Longrightarrow> sim cfg p0 (gaugesBody cfg now x a) (openFalcon_gaugesBody cfg now x b)"
  by (cases x; cases a; cases b)
     (auto simp: sim_def gaugesBody_def openFalcon_gaugesBody_def appendLines_snoc)

lemma sim_setsBody:
  "sim cfg p0 a b \<Longrightarrow> sim cfg p0 (setsBody now x a) (openFalcon_setsBody cfg now x b)"
  by (cases x; cases a; cases b)
     (auto simp: sim_def setsBody_def openFalcon_setsBody_def appendLines_snoc)

lemma sim_countersBody:
  "sim cfg p0 a b \<Longrightarrow> sim cfg p0 (countersBody now x a) (openFalcon_countersBody cfg now x b)"
  by (cases x; cases a; cases b)
     (auto simp: sim_def countersBody_def openFalcon_countersBody_def appendLines_snoc)

lemma sim_inactivityBody:
  "sim cfg p0 a b \<Longrightarrow>
   sim cfg p0 (inactivityBody cfg now x a) (openFalcon_inactivityBody cfg now x b)"
  by (cases x; cases a; cases b)
     (auto simp: sim_def inactivityBody_def openFalcon_inactivityBody_def appendLines_snoc Let_def)

lemma sim_processGauges:
  "sim cfg p0 (processGauges cfg now ([], s)) (openFalcon_processGauges cfg now (p0, s))"
  unfolding processGauges_def openFalcon_processGauges_def prod.case
  by (rule fold_sim) (auto simp: sim_gaugesBody, simp add: sim_def appendLines_Nil)

lemma sim_processSets:
  "sim cfg p0 (processSets now ([], s)) (openFalcon_processSets cfg now (p0, s))"
  unfolding processSets_def openFalcon_processSets_def prod.case
  by (rule fold_sim) (auto simp: sim_setsBody, simp add: sim_def appendLines_Nil)

lemma sim_processCounters:
  "sim cfg p0 (processCounters cfg now ([], s)) (openFalcon_processCounters cfg now (p0, s))"
proof -
  let ?a = "fold (countersBody now) (counters s) (0, [], s)"
  let ?b = "fold (openFalcon_countersBody cfg now) (counters s) (p0, s)"
  have 1: "sim cfg p0 ?a ?b"
    by (rule fold_sim) (auto simp: sim_countersBody, simp add: sim_def appendLines_Nil)
  then have eq: "snd ?b = snd (snd ?a)" by (cases ?a; cases ?b) (auto simp: sim_def)
  have "sim cfg p0 (fold (inactivityBody cfg now) (countInactivity (snd (snd ?a))) ?a)
          (fold (openFalcon_inactivityBody cfg now) (countInactivity (snd (snd ?a))) ?b)"
    by (rule fold_sim) (auto simp: sim_inactivityBody 1)
  then show ?thesis
    by (simp add: processCounters_def openFalcon_processCounters_def Let_def eq)
qed

lemma foldE_sim:
  assumes "\<And>x a b. R a b \<Longrightarrow> rel_sum (=) R (f x a) (g x b)" and "R a b"
  shows "rel_sum (=) R (foldE f xs a) (foldE g xs b)"
  using assms(2)
proof (induction xs arbitrary: a b)
  case Nil
  then show ?case by simp
next
  case (Cons x xs)
  from assms(1) [OF Cons.prems, of x] show ?case
    by (cases "f x a"; cases "g x b") (auto intro: Cons.IH)
qed

lemma sim_pctBody:
  "simP cfg p0 a b \<Longrightarrow>
   rel_sum (=) (simP cfg p0) (pctBody cfg now stem timer pct a) (openFalcon_pctBody cfg now stem timer pct b)"
  by (cases a; cases b)
     (auto simp: simP_def pctBody_def openFalcon_pctBody_def appendLines_snoc split: sum.splits)

lemma sim_timersBody:
  assumes "sim cfg p0 a b"
  shows "rel_sum (=) (sim cfg p0) (timersBody cfg now pctls x a) (openFalcon_timersBody cfg now pctls x b)"
proof -
  obtain k xs where x: "x = (k, xs)" by (cases x)
  obtain n buf s where a: "a = (n, buf, s)" by (cases a)
  from assms a have b: "b = (appendLines cfg buf p0, s)" by (cases b) (simp add: sim_def)
  have sp: "simP cfg p0 (m, buf) (m, appendLines cfg buf p0)" for m by (simp add: simP_def)
  have r: "rel_sum (=) (simP cfg p0) (foldE (pctBody cfg now stem (sort xs)) pctls (m, buf))
         (foldE (openFalcon_pctBody cfg now stem (sort xs)) pctls (m, appendLines cfg buf p0))" for stem m
    by (rule foldE_sim [where R = "simP cfg p0"]) (simp_all add: sim_pctBody sp)
  show ?thesis
  proof (cases "bucketWithoutPostfix k (postfix cfg)")
    case (Inl p)
    then show ?thesis by (simp add: x a b timersBody_def openFalcon_timersBody_def)
  next
    case (Inr stem)
    show ?thesis
    proof (cases "sort xs = []")
      case True
      then show ?thesis by (simp add: x a b timersBody_def openFalcon_timersBody_def Inr)
    next
      case False
      let ?m = "sort xs ! (length xs - 1)"
      from r [of stem ?m] False show ?thesis
        by (cases "foldE (pctBody cfg now stem (sort xs)) pctls (?m, buf)";
            cases "foldE (openFalcon_pctBody cfg now stem (sort xs)) pctls (?m, appendLines cfg buf p0)")
           (auto simp: x a b timersBody_def openFalcon_timersBody_def Inr Let_def simP_def sim_def
              appendLines_append appendLines_Cons appendLines_Nil)
    qed
  qed
qed

lemma sim_processTimers:
  "rel_sum (=) (sim cfg p0) (processTimers cfg now pctls ([], s))
     (openFalcon_processTimers cfg now pctls (p0, s))"
  unfolding processTimers_def openFalcon_processTimers_def prod.case
  by (rule foldE_sim) (auto simp: sim_timersBody, simp add: sim_def appendLines_Nil)


lemma openFalcon_of_graphite:
  assumes "sim cfg p0 (n, ls, s') b"
  shows "b = (appendLines cfg ls p0, s')"
  using assms by (cases b) (simp add: sim_def)

lemma processGauges_closed:
  "processGauges cfg now (buffer, s) =
     (int (length (gauges s)), buffer @ map (\<lambda>(k, v). (k, v, now)) (gauges s),
      if deleteGauges cfg then s\<lparr>gauges := []\<rparr> else s)"
  by (simp add: processGauges_def fold_gaugesBody filter_all_keys)

lemma processSets_closed:
  "processSets now (buffer, s) =
     (int (length (sets s)),
      buffer @ map (\<lambda>(k, ms). (k, of_nat (card (set ms)), now)) (sets s),
      s\<lparr>sets := []\<rparr>)"
  by (simp add: processSets_def fold_setsBody filter_all_keys length_uniqueSet)

subsection \<open>Timers\<close>

lemma pctBody_ok:
  assumes "pct_ok timer pct" "length timer > 1 \<or> m = timer ! (length timer - 1)"
  shows "pctBody cfg now stem timer pct (m, buffer) =
     Inr (fst (snd (pctLine cfg now stem timer pct)), buffer @ [pctLine cfg now stem timer pct])"
  using assms
  by (auto simp: pctBody_def pct_ok_def threshold_def pctMetric_def pctLine_def Let_def)

lemma foldE_pctBody:
  assumes "list_all (pct_ok timer) pctls" "length timer > 1 \<or> m = timer ! (length timer - 1)"
  shows "\<exists>m'. foldE (pctBody cfg now stem timer) pctls (m, buffer) =
     Inr (m', buffer @ map (pctLine cfg now stem timer) pctls)"
  using assms
proof (induction pctls arbitrary: m buffer)
  case Nil
  then show ?case by simp
next
  case (Cons p ps)
  from Cons.prems have p: "pct_ok timer p" and ps: "list_all (pct_ok timer) ps" by simp_all
  let ?m1 = "fst (snd (pctLine cfg now stem timer p))"
  have m1: "length timer > 1 \<or> ?m1 = timer ! (length timer - 1)"
    by (auto simp: pctLine_def)
  from Cons.IH [OF ps m1, of "buffer @ [pctLine cfg now stem timer p]"]
  show ?case by (simp add: pctBody_ok [OF p Cons.prems(2)])
qed

lemma timersBody_ok:
  assumes "timer_ok cfg pctls (k, xs)"
  shows "timersBody cfg now pctls (k, xs) (n, buffer, s) =
     Inr (n + 1,
          buffer @
          map (pctLine cfg now (take (length k - length (postfix cfg)) k) (sort xs)) pctls @
          [(take (length k - length (postfix cfg)) k @ ''.mean'' @ postfix cfg,
              fdiv (fold (\<lambda>v acc. fadd acc v) (sort xs) 0) (of_nat (length xs)), now),
           (take (length k - length (postfix cfg)) k @ ''.upper'' @ postfix cfg,
              sort xs ! (length xs - 1), now),
           (take (length k - length (postfix cfg)) k @ ''.lower'' @ postfix cfg,
              sort xs ! 0, now),
           (take (length k - length (postfix cfg)) k @ ''.count'' @ postfix cfg,
              of_nat (length xs), now)],
          s\<lparr>timers := AList.delete k (timers s)\<rparr>)"
proof -
  let ?stem = "take (length k - length (postfix cfg)) k"
  from assms have len: "length (postfix cfg) \<le> length k" and ne: "xs \<noteq> []"
    and ok: "list_all (pct_ok (sort xs)) pctls"
    by (simp_all add: timer_ok_def)
  have stem: "bucketWithoutPostfix k (postfix cfg) = Inr ?stem"
    using len by (simp add: bucketWithoutPostfix_def nat_diff_distrib')
  obtain m' where f: "foldE (pctBody cfg now ?stem (sort xs)) pctls (sort xs ! (length xs - 1), buffer) =
      Inr (m', buffer @ map (pctLine cfg now ?stem (sort xs)) pctls)"
    using foldE_pctBody [OF ok, of "sort xs ! (length xs - 1)" cfg now ?stem buffer] by auto
  have sne: "sort xs \<noteq> []" using ne by (metis length_sort length_0_conv)
  show ?thesis
    using sne f by (simp add: timersBody_def stem Let_def)
qed

lemma foldE_timersBody:
  assumes "list_all (timer_ok cfg pctls) ys"
  shows "\<exists>ls. foldE (timersBody cfg now pctls) ys (n, buffer, s) =
     Inr (n + int (length ys), buffer @ ls,
          s\<lparr>timers := filter (\<lambda>e. fst e \<notin> fst ` set ys) (timers s)\<rparr>)"
  using assms
proof (induction ys arbitrary: n buffer s)
  case Nil
  then show ?case by simp
next
  case (Cons y ys)
  obtain k xs where y: "y = (k, xs)" by (cases y)
  from Cons.prems y have 1: "timer_ok cfg pctls (k, xs)" and 2: "list_all (timer_ok cfg pctls) ys"
    by simp_all
  from timersBody_ok [OF 1, of now n buffer s] obtain l1
    where tb: "timersBody cfg now pctls (k, xs) (n, buffer, s) =
      Inr (n + 1, buffer @ l1, s\<lparr>timers := AList.delete k (timers s)\<rparr>)"
    by blast
  from Cons.IH [OF 2, of "n + 1" "buffer @ l1" "s\<lparr>timers := AList.delete k (timers s)\<rparr>"]
  obtain l2 where ih: "foldE (timersBody cfg now pctls) ys
        (n + 1, buffer @ l1, s\<lparr>timers := AList.delete k (timers s)\<rparr>) =
      Inr (n + 1 + int (length ys), (buffer @ l1) @ l2,
           s\<lparr>timers := filter (\<lambda>e. fst e \<notin> fst ` set ys) (AList.delete k (timers s))\<rparr>)"
    by auto
  have "foldE (timersBody cfg now pctls) (y # ys) (n, buffer, s) =
      Inr (n + int (length (y # ys)), buffer @ (l1 @ l2),
           s\<lparr>timers := filter (\<lambda>e. fst e \<notin> fst ` set (y # ys)) (timers s)\<rparr>)"
    by (simp add: y tb ih filter_delete add.assoc)
  then show ?case by blast
qed

lemma processTimers_ok:
  assumes "list_all (timer_ok cfg pctls) (timers s)"
  shows "\<exists>ls. processTimers cfg now pctls (buffer, s) =
     Inr (int (length (timers s)), buffer @ ls, s\<lparr>timers := []\<rparr>)"
  using foldE_timersBody [OF assms, of now 0 buffer s]
  by (simp add: processTimers_def filter_all_keys)

lemma openFalcon_timersBody_of:
  "timersBody cfg now pctls x (n, [], s) = Inr (n', ls, s') \<Longrightarrow>
   openFalcon_timersBody cfg now pctls x (p0, s) = Inr (appendLines cfg ls p0, s')"
  "timersBody cfg now pctls x (n, [], s) = Inl p \<Longrightarrow>
   openFalcon_timersBody cfg now pctls x (p0, s) = Inl p"
proof -
  have "sim cfg p0 (n, [], s) (p0, s)" by (simp add: sim_def appendLines_Nil)
  from sim_timersBody [OF this, of now pctls x]
  have r: "rel_sum (=) (sim cfg p0) (timersBody cfg now pctls x (n, [], s))
            (openFalcon_timersBody cfg now pctls x (p0, s))" .
  show "timersBody cfg now pctls x (n, [], s) = Inr (n', ls, s') \<Longrightarrow>
   openFalcon_timersBody cfg now pctls x (p0, s) = Inr (appendLines cfg ls p0, s')"
    using r by (cases "openFalcon_timersBody cfg now pctls x (p0, s)") (auto simp: sim_def)
  show "timersBody cfg now pctls x (n, [], s) = Inl p \<Longrightarrow>
   openFalcon_timersBody cfg now pctls x (p0, s) = Inl p"
    using r by (cases "openFalcon_timersBody cfg now pctls x (p0, s)") (auto simp: sim_def)
qed

lemma timersBody_short_key:
  "length k < length (postfix cfg) \<Longrightarrow>
   timersBody cfg now pctls (k, xs) (n, buffer, s) = Inl SliceOutOfRange"
  by (simp add: timersBody_def bucketWithoutPostfix_def)

subsection \<open>Counters\<close>

lemma countersBody_apply:
  "countersBody now (k, v) (n, buf, s) =
     (n + 1, buf @ [(k, v, now)],
      s\<lparr>counters := AList.delete k (counters s),
        countInactivity := AList.update k 0 (countInactivity s)\<rparr>)"
  by (simp add: countersBody_def)

lemma zeroed_Cons: "zeroed ((k, v) # cs) ci = zeroed cs (AList.update k 0 ci)"
  by (simp add: zeroed_def)

lemma zeroed_Nil: "zeroed [] ci = ci"
  by (simp add: zeroed_def)

lemma fold_countersBody:
  "fold (countersBody now) xs (n, buf, s) =
     (n + int (length xs), buf @ map (\<lambda>(k, v). (k, v, now)) xs,
      s\<lparr>counters := filter (\<lambda>e. fst e \<notin> fst ` set xs) (counters s),
        countInactivity := zeroed xs (countInactivity s)\<rparr>)"
proof (induction xs arbitrary: n buf s)
  case Nil
  then show ?case by (simp add: zeroed_Nil)
next
  case (Cons x xs)
  obtain k v where x: "x = (k, v)" by (cases x)
  show ?case
    by (simp add: x countersBody_apply Cons.IH filter_delete zeroed_Cons)
qed

lemma map_of_zeroed:
  "map_of (zeroed cs ci) k = (if k \<in> fst ` set cs then Some 0 else map_of ci k)"
proof (induction cs arbitrary: ci)
  case Nil
  then show ?case by (simp add: zeroed_Nil)
next
  case (Cons x cs)
  obtain k' v where x: "x = (k', v)" by (cases x)
  show ?case by (simp add: x zeroed_Cons Cons.IH update_conv')
qed

lemma distinct_zeroed: "distinct (map fst ci) \<Longrightarrow> distinct (map fst (zeroed cs ci))"
proof (induction cs arbitrary: ci)
  case Nil
  then show ?case by (simp add: zeroed_Nil)
next
  case (Cons x cs)
  obtain k' v where x: "x = (k', v)" by (cases x)
  show ?case by (simp add: x zeroed_Cons Cons.IH Cons.prems distinct_update)
qed

lemma update_mid:
  "b \<notin> fst ` set pre \<Longrightarrow> AList.update b x (pre @ (b, c) # rest) = pre @ (b, x) # rest"
  by (induction pre) auto

lemma delete_mid:
  "b \<notin> fst ` set pre \<Longrightarrow> b \<notin> fst ` set rest \<Longrightarrow>
   AList.delete b (pre @ (b, x) # rest) = pre @ rest"
  by (induction pre) auto

lemma lookup0_mid:
  assumes "b \<notin> fst ` set pre"
  shows "lookup0 (pre @ (b, c) # rest) b = c"
proof -
  have "map_of pre b = None" using assms by (simp add: map_of_eq_None_iff)
  then show ?thesis by (simp add: lookup0_def map_add_def)
qed

lemma inactivityBody_apply:
  assumes "b \<notin> fst ` set pre" "b \<notin> fst ` set rest"
  shows "inactivityBody cfg now (b, c) (n, buf, s\<lparr>countInactivity := pre @ (b, c) # rest\<rparr>) =
     (n + (if 0 < c then 1 else 0),
      buf @ (if 0 < c then [(b, 0, now)] else []),
      s\<lparr>countInactivity :=
          (pre @ (if c + 1 \<le> persistCountKeys cfg then [(b, c + 1)] else [])) @ rest\<rparr>)"
  using assms
  by (simp add: inactivityBody_def update_mid lookup0_mid delete_mid Let_def)

lemma fold_inactivityBody:
  assumes "distinct (map fst (pre @ todo))"
  shows "fold (inactivityBody cfg now) todo (n, buf, s\<lparr>countInactivity := pre @ todo\<rparr>) =
     (n + int (length (filter (\<lambda>(b, c). 0 < c) todo)),
      buf @ map (\<lambda>(b, c). (b, 0, now)) (filter (\<lambda>(b, c). 0 < c) todo),
      s\<lparr>countInactivity :=
          pre @ map (\<lambda>(b, c). (b, c + 1)) (filter (\<lambda>(b, c). c + 1 \<le> persistCountKeys cfg) todo)\<rparr>)"
  using assms
proof (induction todo arbitrary: pre n buf)
  case Nil
  then show ?case by simp
next
  case (Cons x rest)
  obtain b c where x: "x = (b, c)" by (cases x)
  from Cons.prems x have nb: "b \<notin> fst ` set pre" "b \<notin> fst ` set rest" by auto
  let ?pre = "pre @ (if c + 1 \<le> persistCountKeys cfg then [(b, c + 1)] else [])"
  from Cons.prems x have d: "distinct (map fst (?pre @ rest))" by auto
  note step = inactivityBody_apply [OF nb, of cfg now c n buf s]
  note ih = Cons.IH [OF d, of "n + (if 0 < c then 1 else 0)" "buf @ (if 0 < c then [(b, 0, now)] else [])"]
  show ?case
    unfolding x fold_Cons comp_apply step ih by simp
qed

lemma processCounters_closed:
  assumes "distinct (map fst (countInactivity s))"
  shows "processCounters cfg now (buffer, s) =
     (int (length (counters s)) +
      int (length (filter (\<lambda>(b, c). 0 < c) (zeroed (counters s) (countInactivity s)))),
      buffer @ map (\<lambda>(k, v). (k, v, now)) (counters s) @
      map (\<lambda>(b, c). (b, 0, now))
        (filter (\<lambda>(b, c). 0 < c) (zeroed (counters s) (countInactivity s))),
      s\<lparr>counters := [],
        countInactivity :=
          map (\<lambda>(b, c). (b, c + 1))
            (filter (\<lambda>(b, c). c + 1 \<le> persistCountKeys cfg)
               (zeroed (counters s) (countInactivity s)))\<rparr>)"
proof -
  let ?ci = "zeroed (counters s) (countInactivity s)"
  let ?s1 = "s\<lparr>counters := [], countInactivity := ?ci\<rparr>"
  have d: "distinct (map fst ([] @ ?ci))" using assms by (simp add: distinct_zeroed)
  have 1: "fold (countersBody now) (counters s) (0, buffer, s) =
      (int (length (counters s)), buffer @ map (\<lambda>(k, v). (k, v, now)) (counters s), ?s1)"
    by (simp add: fold_countersBody filter_all_keys)
  have 2: "fold (inactivityBody cfg now) ?ci (n, b, ?s1) =
     (n + int (length (filter (\<lambda>(b, c). 0 < c) ?ci)),
      b @ map (\<lambda>(b, c). (b, 0, now)) (filter (\<lambda>(b, c). 0 < c) ?ci),
      s\<lparr>counters := [],
        countInactivity :=
          map (\<lambda>(b, c). (b, c + 1)) (filter (\<lambda>(b, c). c + 1 \<le> persistCountKeys cfg) ?ci)\<rparr>)"
    for n b
    using fold_inactivityBody [OF d, of cfg now n b "s\<lparr>counters := []\<rparr>"] by simp
  show ?thesis
    by (simp add: processCounters_def Let_def 1 2)
qed

lemma filter_key_map_filter:
  assumes "distinct (map fst xs)"
  shows "filter (\<lambda>l. fst l = k) (map (\<lambda>(a, v). (a, h v, now)) (filter P xs)) =
     (case map_of xs k of None \<Rightarrow> [] | Some v \<Rightarrow> if P (k, v) then [(k, h v, now)] else [])"
  using assms
proof (induction xs)
  case Nil
  then show ?case by simp
next
  case (Cons x xs)
  obtain a b where x: "x = (a, b)" by (cases x)
  from Cons.prems x have na: "a \<notin> fst ` set xs" and d: "distinct (map fst xs)" by auto
  show ?case
  proof (cases "a = k")
    case True
    with na have "map_of xs k = None" by (simp add: map_of_eq_None_iff)
    then have "filter (\<lambda>l. fst l = k) (map (\<lambda>(a, v). (a, h v, now)) (filter P xs)) = []"
      using Cons.IH [OF d] by simp
    then show ?thesis using True by (simp add: x)
  next
    case False
    then show ?thesis using Cons.IH [OF d] by (simp add: x)
  qed
qed

lemma map_of_map_filter:
  assumes "distinct (map fst xs)"
  shows "map_of (map (\<lambda>(b, c). (b, g c)) (filter P xs)) k =
     (case map_of xs k of None \<Rightarrow> None | Some v \<Rightarrow> if P (k, v) then Some (g v) else None)"
  using assms
proof (induction xs)
  case Nil
  then show ?case by simp
next
  case (Cons x xs)
  obtain a b where x: "x = (a, b)" by (cases x)
  from Cons.prems x have na: "a \<notin> fst ` set xs" and d: "distinct (map fst xs)" by auto
  show ?case
  proof (cases "a = k")
    case True
    with na have "map_of xs k = None" by (simp add: map_of_eq_None_iff)
    then show ?thesis using True Cons.IH [OF d] by (simp add: x)
  next
    case False
    then show ?thesis using Cons.IH [OF d] by (simp add: x)
  qed
qed

lemma distinct_map_filter:
  "distinct (map fst xs) \<Longrightarrow> distinct (map fst (map (\<lambda>(b, c). (b, g c)) (filter P xs)))"
  by (induction xs) (auto simp: image_iff)

text \<open>What one flush of the counters does to one key.\<close>

lemma processCounters_key:
  assumes dc: "distinct (map fst (counters s))" and di: "distinct (map fst (countInactivity s))"
  shows "filter (\<lambda>l. fst l = k) (fst (snd (processCounters cfg now ([], s)))) =
       (case map_of (counters s) k of None \<Rightarrow> [] | Some v \<Rightarrow> [(k, v, now)]) @
       (case map_of (zeroed (counters s) (countInactivity s)) k of
          None \<Rightarrow> [] | Some c \<Rightarrow> if 0 < c then [(k, 0, now)] else [])"
    and "map_of (countInactivity (snd (snd (processCounters cfg now ([], s))))) k =
       (case map_of (zeroed (counters s) (countInactivity s)) k of
          None \<Rightarrow> None
        | Some c \<Rightarrow> if c + 1 \<le> persistCountKeys cfg then Some (c + 1) else None)"
    and "distinct (map fst (countInactivity (snd (snd (processCounters cfg now ([], s))))))"
    and "counters (snd (snd (processCounters cfg now ([], s)))) = []"
proof -
  let ?ci = "zeroed (counters s) (countInactivity s)"
  have dz: "distinct (map fst ?ci)" using di by (rule distinct_zeroed)
  note pc = processCounters_closed [OF di, of cfg now "[]"]
  have a: "filter (\<lambda>l. fst l = k) (map (\<lambda>(k, v). (k, v, now)) (counters s)) =
      (case map_of (counters s) k of None \<Rightarrow> [] | Some v \<Rightarrow> [(k, v, now)])"
    using filter_key_map_filter [OF dc, of k "\<lambda>v. v" now "\<lambda>e. True"]
    by (simp cong: option.case_cong)
  have b: "filter (\<lambda>l. fst l = k) (map (\<lambda>(b, c). (b, 0, now)) (filter (\<lambda>(b, c). 0 < c) ?ci)) =
      (case map_of ?ci k of None \<Rightarrow> [] | Some c \<Rightarrow> if 0 < c then [(k, 0, now)] else [])"
    using filter_key_map_filter [OF dz, of k "\<lambda>c. 0" now "\<lambda>(b, c). 0 < c"]
    by (simp cong: option.case_cong)
  show "filter (\<lambda>l. fst l = k) (fst (snd (processCounters cfg now ([], s)))) =
       (case map_of (counters s) k of None \<Rightarrow> [] | Some v \<Rightarrow> [(k, v, now)]) @
       (case map_of ?ci k of None \<Rightarrow> [] | Some c \<Rightarrow> if 0 < c then [(k, 0, now)] else [])"
    by (simp add: pc a b)
  show "map_of (countInactivity (snd (snd (processCounters cfg now ([], s))))) k =
       (case map_of ?ci k of None \<Rightarrow> None
        | Some c \<Rightarrow> if c + 1 \<le> persistCountKeys cfg then Some (c + 1) else None)"
    using map_of_map_filter [OF dz, of "\<lambda>c. c + 1" "\<lambda>(b, c). c + 1 \<le> persistCountKeys cfg" k]
    by (simp add: pc cong: option.case_cong)
  show "distinct (map fst (countInactivity (snd (snd (processCounters cfg now ([], s))))))"
    using distinct_map_filter [OF dz, of "\<lambda>c. c + 1" "\<lambda>(b, c). c + 1 \<le> persistCountKeys cfg"]
    by (simp add: pc)
  show "counters (snd (snd (processCounters cfg now ([], s)))) = []"
    by (simp add: pc)
qed

lemma openFalcon_processCounters_of:
  "openFalcon_processCounters cfg now (packets, s) =
     (appendLines cfg (fst (snd (processCounters cfg now ([], s)))) packets,
      snd (snd (processCounters cfg now ([], s))))"
  using sim_processCounters [of cfg packets now s]
  by (cases "processCounters cfg now ([], s)") (simp add: openFalcon_of_graphite)

lemma incrementCounter_frame:
  "gauges (fold incrementCounter evs s) = gauges s"
  "timers (fold incrementCounter evs s) = timers s"
  "sets (fold incrementCounter evs s) = sets s"
  "countInactivity (fold incrementCounter evs s) = countInactivity s"
  by (induction evs arbitrary: s) (auto simp: incrementCounter_def)

lemma incrementCounter_distinct:
  "distinct (map fst (counters s)) \<Longrightarrow>
   distinct (map fst (counters (fold incrementCounter evs s)))"
  by (induction evs arbitrary: s) (auto simp: incrementCounter_def distinct_update)

lemma incrementCounter_sum:
  "map_of (counters (fold incrementCounter evs s)) k =
     (if k \<in> fst ` set evs
      then Some ((case map_of (counters s) k of None \<Rightarrow> 0 | Some v \<Rightarrow> v) +
                 sum_list (map snd (filter (\<lambda>e. fst e = k) evs)))
      else map_of (counters s) k)"
proof (induction evs arbitrary: s)
  case Nil
  then show ?case by simp
next
  case (Cons e evs)
  obtain b d where e: "e = (b, d)" by (cases e)
  have f: "filter (\<lambda>e. fst e = k) evs = []" if "k \<notin> fst ` set evs"
    using that by (auto simp: filter_empty_conv)
  show ?case
    by (simp add: e Cons.IH) (auto simp: incrementCounter_def update_conv' f split: option.splits)
qed

lemma openFalcon_counterCycles_of:
  "openFalcon_counterCycles cfg cycles s =
     (map (\<lambda>ls. appendLines cfg ls []) (fst (counterCycles cfg cycles s)),
      snd (counterCycles cfg cycles s))"
proof (induction cycles arbitrary: s)
  case Nil
  then show ?case by simp
next
  case (Cons c cycles)
  obtain now incoming where c: "c = (now, incoming)" by (cases c)
  show ?case
    by (simp add: c openFalcon_processCounters_of Cons.IH split: prod.splits)
qed

lemma cycles_inactive:
  assumes "distinct (map fst (countInactivity s))"
    and "list_all (\<lambda>(now, incoming). distinct (map fst incoming) \<and> k \<notin> fst ` set incoming) cycles"
    and "map_of (countInactivity s) k = m"
    and "case m of None \<Rightarrow> True | Some c \<Rightarrow> 1 \<le> c \<and> c \<le> persistCountKeys cfg"
  shows "(\<forall>j<length cycles.
            filter (\<lambda>l. fst l = k) (fst (counterCycles cfg cycles s) ! j) =
              (case m of None \<Rightarrow> []
               | Some c \<Rightarrow> if c + int j \<le> persistCountKeys cfg
                           then [(k, 0, fst (cycles ! j))] else [])) \<and>
         map_of (countInactivity (snd (counterCycles cfg cycles s))) k =
           (case m of None \<Rightarrow> None
            | Some c \<Rightarrow> if c + int (length cycles) \<le> persistCountKeys cfg
                        then Some (c + int (length cycles)) else None)"
  using assms
proof (induction cycles arbitrary: s m)
  case Nil
  then show ?case by (auto split: option.splits)
next
  case (Cons cy cycles)
  obtain now incoming where cy: "cy = (now, incoming)" by (cases cy)
  let ?s0 = "s\<lparr>counters := incoming\<rparr>"
  let ?r = "processCounters cfg now ([], ?s0)"
  let ?s1 = "snd (snd ?r)"
  let ?m1 = "case m of None \<Rightarrow> None
             | Some c \<Rightarrow> if c + 1 \<le> persistCountKeys cfg then Some (c + 1) else None"
  from Cons.prems(2) cy have di: "distinct (map fst incoming)" and nk: "k \<notin> fst ` set incoming"
    and rest: "list_all (\<lambda>(now, incoming). distinct (map fst incoming) \<and> k \<notin> fst ` set incoming) cycles"
    by simp_all
  have d0: "distinct (map fst (counters ?s0))" "distinct (map fst (countInactivity ?s0))"
    using di Cons.prems(1) by simp_all
  have nk': "map_of incoming k = None" using nk by (simp add: map_of_eq_None_iff)
  have z: "map_of (zeroed incoming (countInactivity s)) k = m"
    using nk Cons.prems(3) by (simp add: map_of_zeroed)
  note pk = processCounters_key [OF d0]
  have l0: "filter (\<lambda>l. fst l = k) (fst (snd ?r)) =
      (case m of None \<Rightarrow> [] | Some c \<Rightarrow> [(k, 0, now)])"
    using Cons.prems(4) by (simp add: pk(1) z nk' split: option.splits)
  have m1: "map_of (countInactivity ?s1) k = ?m1"
    by (simp add: pk(2) z)
  have inv1: "case ?m1 of None \<Rightarrow> True | Some c \<Rightarrow> 1 \<le> c \<and> c \<le> persistCountKeys cfg"
    using Cons.prems(4) by (auto split: option.splits)
  note ih = Cons.IH [OF pk(3) rest m1 inv1]
  have cc: "counterCycles cfg ((now, incoming) # cycles) s =
      (fst (snd ?r) # fst (counterCycles cfg cycles ?s1), snd (counterCycles cfg cycles ?s1))"
    by (simp split: prod.splits)
  have a: "filter (\<lambda>l. fst l = k) (fst (counterCycles cfg (cy # cycles) s) ! j) =
              (case m of None \<Rightarrow> []
               | Some c \<Rightarrow> if c + int j \<le> persistCountKeys cfg
                           then [(k, 0, fst ((cy # cycles) ! j))] else [])"
    if j: "j < length (cy # cycles)" for j
  proof (cases j)
    case 0
    then show ?thesis using l0 Cons.prems(4)
      by (simp add: cy cc del: counterCycles.simps split: option.splits)
  next
    case (Suc j')
    with j have "j' < length cycles" by simp
    with ih have "filter (\<lambda>l. fst l = k) (fst (counterCycles cfg cycles ?s1) ! j') =
        (case ?m1 of None \<Rightarrow> []
         | Some c \<Rightarrow> if c + int j' \<le> persistCountKeys cfg
                     then [(k, 0, fst (cycles ! j'))] else [])"
      by blast
    then show ?thesis using Suc
      by (auto simp: cy cc simp del: counterCycles.simps split: option.splits)
  qed
  have b: "map_of (countInactivity (snd (counterCycles cfg (cy # cycles) s))) k =
           (case m of None \<Rightarrow> None
            | Some c \<Rightarrow> if c + int (length (cy # cycles)) \<le> persistCountKeys cfg
                        then Some (c + int (length (cy # cycles))) else None)"
    using ih by (auto simp: cy cc simp del: counterCycles.simps split: option.splits)
  from a b show ?case by blast
qed

subsection \<open>Submit\<close>

lemma fold_inactivityBody_frame:
  "\<exists>ls ci. fold (inactivityBody cfg now) xs (n, b, s) =
     (n + int (length ls), b @ ls, s\<lparr>countInactivity := ci\<rparr>)"
proof (induction xs arbitrary: n b s)
  case Nil
  have "fold (inactivityBody cfg now) [] (n, b, s) =
      (n + int (length ([] :: line list)), b @ [], s\<lparr>countInactivity := countInactivity s\<rparr>)"
    by simp
  then show ?case by blast
next
  case (Cons x xs)
  obtain k c where x: "x = (k, c)" by (cases x)
  obtain ci1 where step: "inactivityBody cfg now (k, c) (n, b, s) =
      (n + int (length (if 0 < c then [(k, 0 :: rat, now)] else [])),
       b @ (if 0 < c then [(k, 0, now)] else []), s\<lparr>countInactivity := ci1\<rparr>)"
    by (simp add: inactivityBody_def Let_def)
  from Cons.IH [of "n + int (length (if 0 < c then [(k, 0 :: rat, now)] else []))"
      "b @ (if 0 < c then [(k, 0, now)] else [])" "s\<lparr>countInactivity := ci1\<rparr>"]
  obtain ls ci where ih: "fold (inactivityBody cfg now) xs
      (n + int (length (if 0 < c then [(k, 0 :: rat, now)] else [])),
       b @ (if 0 < c then [(k, 0, now)] else []), s\<lparr>countInactivity := ci1\<rparr>) =
      (n + int (length (if 0 < c then [(k, 0 :: rat, now)] else [])) + int (length ls),
       (b @ (if 0 < c then [(k, 0, now)] else [])) @ ls, s\<lparr>countInactivity := ci\<rparr>)"
    by auto
  have "fold (inactivityBody cfg now) (x # xs) (n, b, s) =
      (n + int (length ((if 0 < c then [(k, 0 :: rat, now)] else []) @ ls)),
       b @ ((if 0 < c then [(k, 0, now)] else []) @ ls), s\<lparr>countInactivity := ci\<rparr>)"
    unfolding x fold_Cons comp_apply step ih by simp
  then show ?case by blast
qed

lemma processCounters_frame:
  "\<exists>ls ci. processCounters cfg now (b, s) =
     (int (length ls), b @ ls, s\<lparr>counters := [], countInactivity := ci\<rparr>)"
proof -
  let ?l1 = "map (\<lambda>(k, v). (k, v, now)) (counters s)"
  let ?s1 = "s\<lparr>counters := [], countInactivity := zeroed (counters s) (countInactivity s)\<rparr>"
  have 1: "fold (countersBody now) (counters s) (0, b, s) = (int (length ?l1), b @ ?l1, ?s1)"
    by (simp add: fold_countersBody filter_all_keys)
  from fold_inactivityBody_frame [of cfg now "countInactivity ?s1" "int (length ?l1)" "b @ ?l1" ?s1]
  obtain ls ci where 2: "fold (inactivityBody cfg now) (countInactivity ?s1)
      (int (length ?l1), b @ ?l1, ?s1) =
      (int (length ?l1) + int (length ls), (b @ ?l1) @ ls, ?s1\<lparr>countInactivity := ci\<rparr>)"
    by blast
  have "processCounters cfg now (b, s) =
      (int (length (?l1 @ ls)), b @ (?l1 @ ls), s\<lparr>counters := [], countInactivity := ci\<rparr>)"
    unfolding processCounters_def prod.case Let_def 1 snd_conv 2 by simp
  then show ?thesis by blast
qed

lemma timersBody_num:
  "timersBody cfg now pctls x (n, b, s) = Inr (n', b', s') \<Longrightarrow> n' = n + 1"
  by (cases x) (auto simp: timersBody_def Let_def split: sum.splits if_splits prod.splits)

lemma foldE_timersBody_num:
  "foldE (timersBody cfg now pctls) ys (n, b, s) = Inr (n', b', s') \<Longrightarrow>
   n' = n + int (length ys)"
proof (induction ys arbitrary: n b s)
  case Nil
  then show ?case by simp
next
  case (Cons y ys)
  from Cons.prems obtain n1 b1 s1
    where 1: "timersBody cfg now pctls y (n, b, s) = Inr (n1, b1, s1)"
      and 2: "foldE (timersBody cfg now pctls) ys (n1, b1, s1) = Inr (n', b', s')"
    by (auto split: sum.splits)
  from timersBody_num [OF 1] Cons.IH [OF 2] show ?case by simp
qed

lemma processTimers_zero:
  assumes "processTimers cfg now pctls (b, s) = Inr (n, b', s')"
  shows "n = int (length (timers s))" and "n = 0 \<Longrightarrow> b' = b \<and> s' = s"
proof -
  from assms have f: "foldE (timersBody cfg now pctls) (timers s) (0, b, s) = Inr (n, b', s')"
    by (simp add: processTimers_def)
  from foldE_timersBody_num [OF f] show n: "n = int (length (timers s))" by simp
  assume "n = 0"
  with n have "timers s = []" by simp
  with f show "b' = b \<and> s' = s" by simp
qed

lemma openFalcon_processGauges_of:
  "processGauges cfg now ([], s) = (n, ls, s') \<Longrightarrow>
   openFalcon_processGauges cfg now (packets, s) = (appendLines cfg ls packets, s')"
  using sim_processGauges [of cfg packets now s] by (simp add: openFalcon_of_graphite)

lemma openFalcon_processSets_of:
  "processSets now ([], s) = (n, ls, s') \<Longrightarrow>
   openFalcon_processSets cfg now (packets, s) = (appendLines cfg ls packets, s')"
  using sim_processSets [of cfg packets now s] by (simp add: openFalcon_of_graphite)

lemma openFalcon_processTimers_of:
  assumes "processTimers cfg now pctls ([], s) = Inr (n, ls, s')"
  shows "openFalcon_processTimers cfg now pctls (packets, s) = Inr (appendLines cfg ls packets, s')"
  using sim_processTimers [of cfg packets now pctls s] assms
  by (cases "openFalcon_processTimers cfg now pctls (packets, s)") (auto simp: sim_def)

subsection \<open>Timers: names and exact cases\<close>

lemma fadd_zero: "is_float64 v \<Longrightarrow> fadd 0 v = v"
  by (simp add: fadd_def is_float64_def)

lemma fdiv_one: "is_float64 v \<Longrightarrow> fdiv v 1 = v"
  by (simp add: fdiv_def is_float64_def)

lemma openFalcon_timersBody_case:
  "openFalcon_timersBody cfg now pctls x (packets, s) =
     (case timersBody cfg now pctls x (n, [], s) of
        Inl p \<Rightarrow> Inl p
      | Inr (n', ls, s') \<Rightarrow> Inr (appendLines cfg ls packets, s'))"
  by (cases "timersBody cfg now pctls x (n, [], s)") (auto simp: openFalcon_timersBody_of)

lemma pctBody_names:
  assumes "pctBody cfg now stem timer p (m, buf) = Inr (m', buf')"
  shows "map fst buf' = map fst buf @
     [stem @ (if float p \<ge> 0 then ''.upper_'' @ str p else ''.lower_'' @ drop 1 (str p)) @
      postfix cfg]"
  using assms by (auto simp: pctBody_def pctMetric_def split: sum.splits if_splits)

lemma foldE_pctBody_names:
  assumes "foldE (pctBody cfg now stem timer) pctls (m, buf) = Inr (m', buf')"
  shows "map fst buf' = map fst buf @
     map (\<lambda>p. stem @ (if float p \<ge> 0 then ''.upper_'' @ str p
                       else ''.lower_'' @ drop 1 (str p)) @ postfix cfg) pctls"
  using assms
proof (induction pctls arbitrary: m buf)
  case Nil
  then show ?case by simp
next
  case (Cons p ps)
  from Cons.prems obtain m1 b1
    where 1: "pctBody cfg now stem timer p (m, buf) = Inr (m1, b1)"
      and 2: "foldE (pctBody cfg now stem timer) ps (m1, b1) = Inr (m', buf')"
    by (auto split: sum.splits)
  from Cons.IH [OF 2] pctBody_names [OF 1] show ?case by simp
qed

lemma timersBody_names:
  assumes "timersBody cfg now pctls (k, xs) (n, buf, s) = Inr (n', buf', s')"
  shows "map fst buf' = map fst buf @
     map (\<lambda>p. take (length k - length (postfix cfg)) k @
               (if float p \<ge> 0 then ''.upper_'' @ str p else ''.lower_'' @ drop 1 (str p)) @
               postfix cfg) pctls @
     [take (length k - length (postfix cfg)) k @ ''.mean'' @ postfix cfg,
      take (length k - length (postfix cfg)) k @ ''.upper'' @ postfix cfg,
      take (length k - length (postfix cfg)) k @ ''.lower'' @ postfix cfg,
      take (length k - length (postfix cfg)) k @ ''.count'' @ postfix cfg]"
proof -
  let ?stem = "take (length k - length (postfix cfg)) k"
  from assms have len: "length (postfix cfg) \<le> length k"
    by (auto simp: timersBody_def bucketWithoutPostfix_def split: if_splits)
  then have stem: "bucketWithoutPostfix k (postfix cfg) = Inr ?stem"
    by (simp add: bucketWithoutPostfix_def nat_diff_distrib')
  from assms stem obtain m' b1
    where f: "foldE (pctBody cfg now ?stem (sort xs)) pctls (sort xs ! (length xs - 1), buf) =
        Inr (m', b1)"
      and b: "buf' = b1 @
        [(?stem @ ''.mean'' @ postfix cfg,
            fdiv (fold (\<lambda>v acc. fadd acc v) (sort xs) 0) (of_nat (length xs)), now),
         (?stem @ ''.upper'' @ postfix cfg, sort xs ! (length xs - 1), now),
         (?stem @ ''.lower'' @ postfix cfg, sort xs ! 0, now),
         (?stem @ ''.count'' @ postfix cfg, of_nat (length xs), now)]"
    by (auto simp: timersBody_def Let_def split: if_splits sum.splits)
  from foldE_pctBody_names [OF f] b show ?thesis by simp
qed

lemma pctBody_Inr_ok:
  assumes "pctBody cfg now stem timer p (m, buf) = Inr r"
  shows "pct_ok timer p"
  using assms
  by (auto simp: pctBody_def pct_ok_def threshold_def pctMetric_def Let_def
      split: sum.splits if_splits)

lemma foldE_pctBody_Inr_ok:
  assumes "foldE (pctBody cfg now stem timer) pctls (m, buf) = Inr r"
  shows "list_all (pct_ok timer) pctls"
  using assms
proof (induction pctls arbitrary: m buf)
  case Nil
  then show ?case by simp
next
  case (Cons p ps)
  from Cons.prems obtain m1 b1
    where 1: "pctBody cfg now stem timer p (m, buf) = Inr (m1, b1)"
      and 2: "foldE (pctBody cfg now stem timer) ps (m1, b1) = Inr r"
    by (auto split: sum.splits)
  from pctBody_Inr_ok [OF 1] Cons.IH [OF 2] show ?case by simp
qed

lemma timersBody_Inr_ok:
  assumes "timersBody cfg now pctls (k, xs) (n, buf, s) = Inr r"
  shows "timer_ok cfg pctls (k, xs)"
proof -
  let ?stem = "take (length k - length (postfix cfg)) k"
  from assms have len: "length (postfix cfg) \<le> length k"
    by (auto simp: timersBody_def bucketWithoutPostfix_def split: if_splits)
  then have stem: "bucketWithoutPostfix k (postfix cfg) = Inr ?stem"
    by (simp add: bucketWithoutPostfix_def nat_diff_distrib')
  from assms stem have ne: "xs \<noteq> []"
    by (auto simp: timersBody_def Let_def split: if_splits)
  from assms stem obtain r'
    where f: "foldE (pctBody cfg now ?stem (sort xs)) pctls (sort xs ! (length xs - 1), buf) =
        Inr r'"
    by (auto simp: timersBody_def Let_def split: if_splits sum.splits)
  from foldE_pctBody_Inr_ok [OF f] len ne show ?thesis by (simp add: timer_ok_def)
qed

lemma timersBody_Inr_iff:
  "(\<exists>r. timersBody cfg now pctls (k, xs) (n, buf, s) = Inr r) \<longleftrightarrow> timer_ok cfg pctls (k, xs)"
  using timersBody_Inr_ok timersBody_ok by blast

lemma foldE_timersBody_Inr_ok:
  assumes "foldE (timersBody cfg now pctls) ys (n, buf, s) = Inr r"
  shows "list_all (timer_ok cfg pctls) ys"
  using assms
proof (induction ys arbitrary: n buf s)
  case Nil
  then show ?case by simp
next
  case (Cons y ys)
  obtain k xs where y: "y = (k, xs)" by (cases y)
  from Cons.prems obtain n1 b1 s1
    where 1: "timersBody cfg now pctls (k, xs) (n, buf, s) = Inr (n1, b1, s1)"
      and 2: "foldE (timersBody cfg now pctls) ys (n1, b1, s1) = Inr r"
    by (auto simp: y split: sum.splits)
  from timersBody_Inr_ok [OF 1] Cons.IH [OF 2] show ?case by (simp add: y)
qed

lemma processTimers_Inr_iff:
  "(\<exists>r. processTimers cfg now pctls (buf, s) = Inr r) \<longleftrightarrow>
   list_all (timer_ok cfg pctls) (timers s)"
proof
  assume "\<exists>r. processTimers cfg now pctls (buf, s) = Inr r"
  then show "list_all (timer_ok cfg pctls) (timers s)"
    by (auto simp: processTimers_def dest: foldE_timersBody_Inr_ok)
next
  assume "list_all (timer_ok cfg pctls) (timers s)"
  from processTimers_ok [OF this, of now buf] show "\<exists>r. processTimers cfg now pctls (buf, s) = Inr r"
    by blast
qed

section \<open>The claims\<close>

subsection \<open>Gauges\<close>

text \<open>
  C7. Both backends emit one record per gauge key, carrying the key's current value. With
  \<^verbatim>\<open>*deleteGauges\<close> set, every key is deleted after its record and the gauges
  mapping is empty after the flush. With \<^verbatim>\<open>*deleteGauges\<close> unset, the flush returns
  the store it was given, so that the next flush, at any later time \<open>now'\<close>, emits the
  same values again.
\<close>

theorem gauges_flush_policy:
  "processGauges cfg now (buffer, s) =
     (int (length (gauges s)), buffer @ map (\<lambda>(k, v). (k, v, now)) (gauges s),
      if deleteGauges cfg then s\<lparr>gauges := []\<rparr> else s) \<and>
   openFalcon_processGauges cfg now (packets, s) =
     (appendLines cfg (map (\<lambda>(k, v). (k, v, now)) (gauges s)) packets,
      if deleteGauges cfg then s\<lparr>gauges := []\<rparr> else s) \<and>
   (\<not> deleteGauges cfg \<longrightarrow>
      processGauges cfg now' (buffer', snd (snd (processGauges cfg now (buffer, s)))) =
        (int (length (gauges s)), buffer' @ map (\<lambda>(k, v). (k, v, now')) (gauges s), s) \<and>
      openFalcon_processGauges cfg now'
          (packets', snd (openFalcon_processGauges cfg now (packets, s))) =
        (appendLines cfg (map (\<lambda>(k, v). (k, v, now')) (gauges s)) packets', s))"
proof -
  have g: "processGauges cfg t (b, s) =
     (int (length (gauges s)), b @ map (\<lambda>(k, v). (k, v, t)) (gauges s),
      if deleteGauges cfg then s\<lparr>gauges := []\<rparr> else s)" for t b
    by (rule processGauges_closed)
  have o: "openFalcon_processGauges cfg t (p, s) =
     (appendLines cfg (map (\<lambda>(k, v). (k, v, t)) (gauges s)) p,
      if deleteGauges cfg then s\<lparr>gauges := []\<rparr> else s)" for t p
    using sim_processGauges [of cfg p t s] by (simp add: g [of t "[]"] openFalcon_of_graphite)
  show ?thesis by (simp add: g o)
qed

theorem gauges_flush_policy_witness:
  "\<not> deleteGauges \<lparr>debug = False, persistCountKeys = 2, deleteGauges = False, postfix = [],
        flushInterval = 10, percentThreshold = []\<rparr> \<and>
   processGauges \<lparr>debug = False, persistCountKeys = 2, deleteGauges = False, postfix = [],
        flushInterval = 10, percentThreshold = []\<rparr> 20
     ([], snd (snd (processGauges \<lparr>debug = False, persistCountKeys = 2, deleteGauges = False,
        postfix = [], flushInterval = 10, percentThreshold = []\<rparr> 10
        ([], \<lparr>counters = [], gauges = [(''load'', 3)], timers = [], sets = [],
              countInactivity = []\<rparr>)))) =
   (1, [(''load'', 3, 20)],
    \<lparr>counters = [], gauges = [(''load'', 3)], timers = [], sets = [], countInactivity = []\<rparr>)"
proof -
  let ?C = "\<lparr>debug = False, persistCountKeys = 2, deleteGauges = False, postfix = [],
        flushInterval = 10, percentThreshold = []\<rparr>"
  let ?S = "\<lparr>counters = [], gauges = [(''load'', 3)], timers = [], sets = [],
        countInactivity = []\<rparr>"
  have h: "\<not> deleteGauges ?C" by simp
  have "processGauges ?C 20 ([], snd (snd (processGauges ?C 10 ([], ?S)))) =
        (int (length (gauges ?S)), [] @ map (\<lambda>(k, v). (k, v, 20)) (gauges ?S), ?S)"
    using gauges_flush_policy [of ?C 10 "[]" ?S "[]" 20 "[]" "[]"] h by blast
  then show ?thesis by simp
qed

subsection \<open>Sets\<close>

text \<open>
  C8. Both backends emit one record per set bucket whose value is the number of distinct
  members of the bucket, whatever their order and multiplicity (the members
  \<^verbatim>\<open>["a","a","b"]\<close> give 2), and the sets mapping is empty after the flush. No
  configuration option is read: \<^verbatim>\<open>processSets\<close> of the graphite backend has no
  configuration among its arguments, and the result of the method of the open-falcon
  backend is the same for every configuration, up to the step written into each packet.
\<close>

theorem sets_flush_distinct_count:
  "processSets now (buffer, s) =
     (int (length (sets s)),
      buffer @ map (\<lambda>(k, ms). (k, of_nat (card (set ms)), now)) (sets s),
      s\<lparr>sets := []\<rparr>) \<and>
   openFalcon_processSets cfg now (packets, s) =
     (appendLines cfg (map (\<lambda>(k, ms). (k, of_nat (card (set ms)), now)) (sets s)) packets,
      s\<lparr>sets := []\<rparr>) \<and>
   length (uniqueSet [''a'', ''a'', ''b'']) = 2 \<and>
   processSets now ([], \<lparr>counters = [], gauges = [],  timers = [],
       sets = [(''users'', [''a'', ''a'', ''b''])], countInactivity = []\<rparr>) =
     (1, [(''users'', 2, now)],
      \<lparr>counters = [], gauges = [],  timers = [], sets = [], countInactivity = []\<rparr>)"
proof -
  have o: "openFalcon_processSets cfg now (packets, s) =
     (appendLines cfg (map (\<lambda>(k, ms). (k, of_nat (card (set ms)), now)) (sets s)) packets,
      s\<lparr>sets := []\<rparr>)"
    using sim_processSets [of cfg packets now s]
    by (simp add: processSets_closed openFalcon_of_graphite)
  have u: "length (uniqueSet [''a'', ''a'', ''b'']) = 2" by (simp add: length_uniqueSet)
  show ?thesis by (simp add: processSets_closed o u)
qed

subsection \<open>Metric names of the open-falcon backend\<close>

text \<open>
  C9. A metric name that contains \<^verbatim>\<open>/\<close> is split at its last \<^verbatim>\<open>/\<close>: it is the
  name, the separator and the tags, and the tags contain no separator. A metric name
  without \<^verbatim>\<open>/\<close> is the name, with empty tags. \<^verbatim>\<open>appendPacket\<close> writes the two
  parts into the \<^verbatim>\<open>Metric\<close> and \<^verbatim>\<open>Tags\<close> fields of the packet it appends.
\<close>

theorem parseMetric_last_separator:
  "(CHR ''/'' \<in> set metric \<longrightarrow>
      metric = fst (parseMetric metric) @ ''/'' @ snd (parseMetric metric) \<and>
      CHR ''/'' \<notin> set (snd (parseMetric metric))) \<and>
   (CHR ''/'' \<notin> set metric \<longrightarrow> parseMetric metric = (metric, [])) \<and>
   appendPacket cfg metric v now packets =
     packets @ [\<lparr>Metric = fst (parseMetric metric), Endpoint = ''statsd'',
                 Tags = snd (parseMetric metric), Value = v, Timestamp = now,
                 CounterType = ''GAUGE'', Step = flushInterval cfg\<rparr>]"
proof (intro conjI impI)
  assume c: "CHR ''/'' \<in> set metric"
  note L = LastIndex_split [OF c]
  have pm: "parseMetric metric =
      (take (nat (LastIndex metric CHR ''/'')) metric,
       drop (nat (LastIndex metric CHR ''/'' + 1)) metric)"
    using L(1) by (simp add: parseMetric_def Let_def)
  show "metric = fst (parseMetric metric) @ ''/'' @ snd (parseMetric metric)"
    using L(3) by (simp add: pm)
  show "CHR ''/'' \<notin> set (snd (parseMetric metric))"
    using L(4) by (simp add: pm)
next
  assume "CHR ''/'' \<notin> set metric"
  then show "parseMetric metric = (metric, [])"
    by (simp add: parseMetric_def LastIndex_def)
next
  show "appendPacket cfg metric v now packets =
     packets @ [\<lparr>Metric = fst (parseMetric metric), Endpoint = ''statsd'',
                 Tags = snd (parseMetric metric), Value = v, Timestamp = now,
                 CounterType = ''GAUGE'', Step = flushInterval cfg\<rparr>]"
    by (simp add: appendPacket_def DEFAULT_ENDPOINT_def split: prod.splits)
qed

theorem parseMetric_last_separator_witness:
  "CHR ''/'' \<in> set ''api.hits/host=a/dc=b'' \<and>
   parseMetric ''api.hits/host=a/dc=b'' = (''api.hits/host=a'', ''dc=b'') \<and>
   ''api.hits/host=a/dc=b'' =
     fst (parseMetric ''api.hits/host=a/dc=b'') @ ''/'' @
     snd (parseMetric ''api.hits/host=a/dc=b'') \<and>
   CHR ''/'' \<notin> set (snd (parseMetric ''api.hits/host=a/dc=b'')) \<and>
   CHR ''/'' \<notin> set ''api.hits'' \<and>
   parseMetric ''api.hits'' = (''api.hits'', [])"
proof -
  have h1: "CHR ''/'' \<in> set ''api.hits/host=a/dc=b''" by simp
  have h2: "CHR ''/'' \<notin> set ''api.hits''" by simp
  have v: "parseMetric ''api.hits/host=a/dc=b'' = (''api.hits/host=a'', ''dc=b'')"
    by (simp add: parseMetric_def LastIndex_def)
  have a: "''api.hits/host=a/dc=b'' =
     fst (parseMetric ''api.hits/host=a/dc=b'') @ ''/'' @
     snd (parseMetric ''api.hits/host=a/dc=b'') \<and>
     CHR ''/'' \<notin> set (snd (parseMetric ''api.hits/host=a/dc=b''))"
    using parseMetric_last_separator [of "''api.hits/host=a/dc=b''"] h1 by blast
  have b: "parseMetric ''api.hits'' = (''api.hits'', [])"
    using parseMetric_last_separator [of "''api.hits''"] h2 by blast
  show ?thesis using h1 h2 v a b by blast
qed
subsection \<open>Timers\<close>

text \<open>
  C1. A timer bucket with more than one sample. Its flush returns exactly when the bucket
  is fine for the percentiles (\<open>timer_ok\<close>: the key is at least as long as the postfix,
  every index is inside the samples, every lower-tail text is non-empty) and panics
  otherwise. When it returns, the record of a percentile carries
  \<^verbatim>\<open>samples[index]\<close> of the samples sorted ascending, with \<open>abs\<close> the magnitude for an
  upper-tail percentile and 100 plus the (negative) magnitude for a lower-tail one, and
  \<open>index = floor (abs / 100 * count + 0.5)\<close>, minus 1 only for the upper tail, every
  operation of the formula being the one of \<^verbatim>\<open>float64\<close>. The open-falcon backend
  appends the packets of the same records. For the samples \<^verbatim>\<open>[1,2,3,4,5]\<close>,
  "upper 50" has index 2 and threshold 3; "lower 50" (magnitude \<open>-50\<close>) has index 3 and
  threshold 4.
\<close>

theorem percentile_threshold_index:
  assumes "length xs > 1"
  shows "(timer_ok cfg pctls (k, xs) \<longleftrightarrow>
      (\<exists>r. timersBody cfg now pctls (k, xs) (n, buffer, s) = Inr r)) \<and>
   (timer_ok cfg pctls (k, xs) \<longrightarrow>
    timersBody cfg now pctls (k, xs) (n, buffer, s) =
     Inr (n + 1,
          buffer @
          map (\<lambda>p. (take (length k - length (postfix cfg)) k @
                      (if float p \<ge> 0 then ''.upper_'' @ str p
                       else ''.lower_'' @ drop 1 (str p)) @ postfix cfg,
                    sort xs !
                      nat (\<lfloor>fadd (fmul (fdiv (if float p \<ge> 0 then float p
                                                else fadd 100 (float p)) 100)
                                      (of_nat (length xs))) (1 / 2)\<rfloor> -
                           (if float p \<ge> 0 then 1 else 0)),
                    now)) pctls @
          [(take (length k - length (postfix cfg)) k @ ''.mean'' @ postfix cfg,
              fdiv (fold (\<lambda>v acc. fadd acc v) (sort xs) 0) (of_nat (length xs)), now),
           (take (length k - length (postfix cfg)) k @ ''.upper'' @ postfix cfg,
              sort xs ! (length xs - 1), now),
           (take (length k - length (postfix cfg)) k @ ''.lower'' @ postfix cfg,
              sort xs ! 0, now),
           (take (length k - length (postfix cfg)) k @ ''.count'' @ postfix cfg,
              of_nat (length xs), now)],
          s\<lparr>timers := AList.delete k (timers s)\<rparr>)) \<and>
   openFalcon_timersBody cfg now pctls (k, xs) (packets, s) =
     (case timersBody cfg now pctls (k, xs) (n, [], s) of
        Inl p \<Rightarrow> Inl p
      | Inr (n', ls, s') \<Rightarrow> Inr (appendLines cfg ls packets, s')) \<and>
   (\<forall>m. threshold (sort xs) pct m =
      (let i = \<lfloor>fadd (fmul (fdiv (if float pct \<ge> 0 then float pct
                                      else fadd 100 (float pct)) 100)
                            (of_nat (length xs))) (1 / 2)\<rfloor> -
               (if float pct \<ge> 0 then 1 else 0)
       in if 0 \<le> i \<and> i < int (length xs) then Inr (sort xs ! nat i)
          else Inl IndexOutOfRange)) \<and>
   indexOfPerc \<lparr>float = 50, str = ''50''\<rparr> 5 = 2 \<and>
   threshold [1, 2, 3, 4, 5] \<lparr>float = 50, str = ''50''\<rparr> 5 = Inr 3 \<and>
   indexOfPerc \<lparr>float = - 50, str = ''-50''\<rparr> 5 = 3 \<and>
   threshold [1, 2, 3, 4, 5] \<lparr>float = - 50, str = ''-50''\<rparr> 5 = Inr 4"
proof -
  have idx: "indexOfPerc p c =
      \<lfloor>fadd (fmul (fdiv (if float p \<ge> 0 then float p else fadd 100 (float p)) 100)
               (of_nat c)) (1 / 2)\<rfloor> -
      (if float p \<ge> 0 then 1 else 0)" for p c
    by (simp add: indexOfPerc_def Let_def)
  have pl: "pctLine cfg now stem (sort xs) p =
      (stem @ (if float p \<ge> 0 then ''.upper_'' @ str p else ''.lower_'' @ drop 1 (str p)) @
         postfix cfg,
       sort xs ! nat (\<lfloor>fadd (fmul (fdiv (if float p \<ge> 0 then float p
                                           else fadd 100 (float p)) 100)
                                 (of_nat (length xs))) (1 / 2)\<rfloor> -
                      (if float p \<ge> 0 then 1 else 0)),
       now)" for stem p
    using assms(1) by (simp add: pctLine_def idx)
  have 1: "map (pctLine cfg now stem (sort xs)) pctls =
      map (\<lambda>p. (stem @ (if float p \<ge> 0 then ''.upper_'' @ str p
                          else ''.lower_'' @ drop 1 (str p)) @ postfix cfg,
                 sort xs ! nat (\<lfloor>fadd (fmul (fdiv (if float p \<ge> 0 then float p
                                           else fadd 100 (float p)) 100)
                                 (of_nat (length xs))) (1 / 2)\<rfloor> -
                      (if float p \<ge> 0 then 1 else 0)),
                 now)) pctls" for stem
    by (rule map_cong [OF refl]) (rule pl)
  have i: "timer_ok cfg pctls (k, xs) \<longleftrightarrow>
      (\<exists>r. timersBody cfg now pctls (k, xs) (n, buffer, s) = Inr r)"
    by (rule timersBody_Inr_iff [symmetric])
  have a: "timersBody cfg now pctls (k, xs) (n, buffer, s) =
     Inr (n + 1,
          buffer @
          map (\<lambda>p. (take (length k - length (postfix cfg)) k @
                      (if float p \<ge> 0 then ''.upper_'' @ str p
                       else ''.lower_'' @ drop 1 (str p)) @ postfix cfg,
                    sort xs !
                      nat (\<lfloor>fadd (fmul (fdiv (if float p \<ge> 0 then float p
                                                else fadd 100 (float p)) 100)
                                      (of_nat (length xs))) (1 / 2)\<rfloor> -
                           (if float p \<ge> 0 then 1 else 0)),
                    now)) pctls @
          [(take (length k - length (postfix cfg)) k @ ''.mean'' @ postfix cfg,
              fdiv (fold (\<lambda>v acc. fadd acc v) (sort xs) 0) (of_nat (length xs)), now),
           (take (length k - length (postfix cfg)) k @ ''.upper'' @ postfix cfg,
              sort xs ! (length xs - 1), now),
           (take (length k - length (postfix cfg)) k @ ''.lower'' @ postfix cfg,
              sort xs ! 0, now),
           (take (length k - length (postfix cfg)) k @ ''.count'' @ postfix cfg,
              of_nat (length xs), now)],
          s\<lparr>timers := AList.delete k (timers s)\<rparr>)"
    if "timer_ok cfg pctls (k, xs)"
    unfolding 1 [symmetric] by (rule timersBody_ok [OF that])
  have o: "openFalcon_timersBody cfg now pctls (k, xs) (packets, s) =
     (case timersBody cfg now pctls (k, xs) (n, [], s) of
        Inl p \<Rightarrow> Inl p
      | Inr (n', ls, s') \<Rightarrow> Inr (appendLines cfg ls packets, s'))"
    by (rule openFalcon_timersBody_case)
  have b: "threshold (sort xs) pct m =
      (let i = \<lfloor>fadd (fmul (fdiv (if float pct \<ge> 0 then float pct
                                      else fadd 100 (float pct)) 100)
                            (of_nat (length xs))) (1 / 2)\<rfloor> -
               (if float pct \<ge> 0 then 1 else 0)
       in if 0 \<le> i \<and> i < int (length xs) then Inr (sort xs ! nat i)
          else Inl IndexOutOfRange)" for m
    using assms(1) by (simp add: threshold_def idx Let_def)
  have c: "indexOfPerc \<lparr>float = 50, str = ''50''\<rparr> 5 = 2"
    "threshold [1, 2, 3, 4, 5] \<lparr>float = 50, str = ''50''\<rparr> 5 = Inr 3"
    "indexOfPerc \<lparr>float = - 50, str = ''-50''\<rparr> 5 = 3"
    "threshold [1, 2, 3, 4, 5] \<lparr>float = - 50, str = ''-50''\<rparr> 5 = Inr 4"
    by code_simp+
  from i a o b c show ?thesis by blast
qed

theorem percentile_threshold_index_witness:
  "length [5, 3, 1, 2, 4 :: rat] > 1 \<and>
   timer_ok \<lparr>debug = False, persistCountKeys = 60, deleteGauges = False, postfix = [],
       flushInterval = 10, percentThreshold = []\<rparr>
     [\<lparr>float = 50, str = ''50''\<rparr>, \<lparr>float = - 50, str = ''-50''\<rparr>] (''t'', [5, 3, 1, 2, 4]) \<and>
   timersBody \<lparr>debug = False, persistCountKeys = 60, deleteGauges = False, postfix = [],
       flushInterval = 10, percentThreshold = []\<rparr> 0
     [\<lparr>float = 50, str = ''50''\<rparr>, \<lparr>float = - 50, str = ''-50''\<rparr>] (''t'', [5, 3, 1, 2, 4])
     (0, [], \<lparr>counters = [], gauges = [], timers = [(''t'', [5, 3, 1, 2, 4])], sets = [],
              countInactivity = []\<rparr>) =
   Inr (1, [(''t.upper_50'', 3, 0), (''t.lower_50'', 4, 0), (''t.mean'', 3, 0),
            (''t.upper'', 5, 0), (''t.lower'', 1, 0), (''t.count'', 5, 0)],
        \<lparr>counters = [], gauges = [], timers = [], sets = [], countInactivity = []\<rparr>)"
proof -
  let ?C = "\<lparr>debug = False, persistCountKeys = 60, deleteGauges = False, postfix = [],
       flushInterval = 10, percentThreshold = []\<rparr>"
  let ?P = "[\<lparr>float = 50, str = ''50''\<rparr>, \<lparr>float = - 50, str = ''-50''\<rparr>]"
  let ?S = "\<lparr>counters = [], gauges = [], timers = [(''t'', [5, 3, 1, 2, 4])], sets = [],
        countInactivity = []\<rparr>"
  have h1: "length [5, 3, 1, 2, 4 :: rat] > 1" by simp
  have h2: "timer_ok ?C ?P (''t'', [5, 3, 1, 2, 4])" by code_simp
  note t = percentile_threshold_index [OF h1, where cfg = ?C and pctls = ?P and k = "''t''"
      and now = 0 and n = 0 and buffer = "[]" and s = ?S,
      THEN conjunct2, THEN conjunct1, THEN mp, OF h2]
  have "timersBody ?C 0 ?P (''t'', [5, 3, 1, 2, 4]) (0, [], ?S) =
   Inr (1, [(''t.upper_50'', 3, 0), (''t.lower_50'', 4, 0), (''t.mean'', 3, 0),
            (''t.upper'', 5, 0), (''t.lower'', 1, 0), (''t.count'', 5, 0)],
        \<lparr>counters = [], gauges = [], timers = [], sets = [], countInactivity = []\<rparr>)"
    unfolding t by code_simp
  then show ?thesis using h1 h2 by blast
qed

text \<open>
  The claim as the specification states it fails twice. With index 2 and threshold 3 for
  "lower 50", it fails on the samples \<^verbatim>\<open>[1,2,3,4,5]\<close>, where the index is 3 and the
  threshold 4. With the formula read in exact arithmetic, it fails for "upper 58" on 25
  samples: the formula gives 14, and the code, which rounds \<^verbatim>\<open>58 / 100.0\<close> and the
  product to \<^verbatim>\<open>float64\<close>, computes 13.
\<close>

theorem lower_50_counterexample:
  "indexOfPerc \<lparr>float = - 50, str = ''-50''\<rparr> 5 \<noteq> 2 \<and>
   threshold (sort [1, 2, 3, 4, 5]) \<lparr>float = - 50, str = ''-50''\<rparr> 5 \<noteq> Inr 3 \<and>
   timersBody \<lparr>debug = False, persistCountKeys = 60, deleteGauges = False, postfix = [],
       flushInterval = 10, percentThreshold = []\<rparr> 0
     [\<lparr>float = 50, str = ''50''\<rparr>, \<lparr>float = - 50, str = ''-50''\<rparr>] (''t'', [1, 2, 3, 4, 5])
     (0, [], \<lparr>counters = [], gauges = [], timers = [(''t'', [1, 2, 3, 4, 5])], sets = [],
              countInactivity = []\<rparr>) =
   Inr (1, [(''t.upper_50'', 3, 0), (''t.lower_50'', 4, 0), (''t.mean'', 3, 0),
            (''t.upper'', 5, 0), (''t.lower'', 1, 0), (''t.count'', 5, 0)],
        \<lparr>counters = [], gauges = [], timers = [], sets = [], countInactivity = []\<rparr>) \<and>
   indexOfPerc \<lparr>float = 58, str = ''58''\<rparr> 25 = 13 \<and>
   \<lfloor>(58 :: rat) / 100 * of_nat 25 + 1 / 2\<rfloor> - 1 = 14"
  by code_simp

text \<open>
  C4. A timer bucket with the single sample \<open>v\<close>, under a key at least as long as the
  postfix and with percentiles whose lower-tail texts are not empty: both backends emit
  one record of value \<open>v\<close> per percentile, then the mean \<open>v\<close>, the upper (max) \<open>v\<close>, the
  lower (min) \<open>v\<close> and the count 1, whatever the percentile is: no index is computed.
  The sample is a \<^verbatim>\<open>float64\<close>, so that \<^verbatim>\<open>0 + v\<close> and \<^verbatim>\<open>v / 1\<close> are exact.
\<close>

theorem single_sample_timer:
  assumes "length (postfix cfg) \<le> length k"
    and "list_all (\<lambda>p. float p < 0 \<longrightarrow> str p \<noteq> []) pctls"
    and "is_float64 v"
  shows "timersBody cfg now pctls (k, [v]) (n, buffer, s) =
     Inr (n + 1,
          buffer @
          map (\<lambda>p. (if float p \<ge> 0
                    then take (length k - length (postfix cfg)) k @ ''.upper_'' @ str p @ postfix cfg
                    else take (length k - length (postfix cfg)) k @ ''.lower_'' @ drop 1 (str p) @
                         postfix cfg,
                    v, now)) pctls @
          [(take (length k - length (postfix cfg)) k @ ''.mean'' @ postfix cfg, v, now),
           (take (length k - length (postfix cfg)) k @ ''.upper'' @ postfix cfg, v, now),
           (take (length k - length (postfix cfg)) k @ ''.lower'' @ postfix cfg, v, now),
           (take (length k - length (postfix cfg)) k @ ''.count'' @ postfix cfg, 1, now)],
          s\<lparr>timers := AList.delete k (timers s)\<rparr>) \<and>
   openFalcon_timersBody cfg now pctls (k, [v]) (packets, s) =
     Inr (appendLines cfg
           (map (\<lambda>p. (if float p \<ge> 0
                    then take (length k - length (postfix cfg)) k @ ''.upper_'' @ str p @ postfix cfg
                    else take (length k - length (postfix cfg)) k @ ''.lower_'' @ drop 1 (str p) @
                         postfix cfg,
                    v, now)) pctls @
            [(take (length k - length (postfix cfg)) k @ ''.mean'' @ postfix cfg, v, now),
             (take (length k - length (postfix cfg)) k @ ''.upper'' @ postfix cfg, v, now),
             (take (length k - length (postfix cfg)) k @ ''.lower'' @ postfix cfg, v, now),
             (take (length k - length (postfix cfg)) k @ ''.count'' @ postfix cfg, 1, now)])
           packets,
          s\<lparr>timers := AList.delete k (timers s)\<rparr>)"
proof -
  have ok: "timer_ok cfg pctls (k, [v])"
    using assms(1,2) by (simp add: timer_ok_def pct_ok_def list_all_iff)
  have pl: "pctLine cfg now stem [v] p =
      (if float p \<ge> 0 then stem @ ''.upper_'' @ str p @ postfix cfg
       else stem @ ''.lower_'' @ drop 1 (str p) @ postfix cfg, v, now)" for stem p
    by (simp add: pctLine_def)
  have mean: "fdiv (fadd 0 v) 1 = v"
    using assms(3) by (simp add: fadd_zero fdiv_one)
  have g: "timersBody cfg now pctls (k, [v]) (m, b, s) =
     Inr (m + 1,
          b @
          map (\<lambda>p. (if float p \<ge> 0
                    then take (length k - length (postfix cfg)) k @ ''.upper_'' @ str p @ postfix cfg
                    else take (length k - length (postfix cfg)) k @ ''.lower_'' @ drop 1 (str p) @
                         postfix cfg,
                    v, now)) pctls @
          [(take (length k - length (postfix cfg)) k @ ''.mean'' @ postfix cfg, v, now),
           (take (length k - length (postfix cfg)) k @ ''.upper'' @ postfix cfg, v, now),
           (take (length k - length (postfix cfg)) k @ ''.lower'' @ postfix cfg, v, now),
           (take (length k - length (postfix cfg)) k @ ''.count'' @ postfix cfg, 1, now)],
          s\<lparr>timers := AList.delete k (timers s)\<rparr>)" for m b
    using timersBody_ok [OF ok, of now m b s] by (simp add: pl mean)
  from openFalcon_timersBody_of(1) [OF g [of 0 "[]", simplified append_Nil], of packets] g [of n buffer]
  show ?thesis by simp
qed

theorem single_sample_timer_witness:
  "length (postfix \<lparr>debug = False, persistCountKeys = 60, deleteGauges = False, postfix = [],
       flushInterval = 10, percentThreshold = []\<rparr>) \<le> length ''t'' \<and>
   list_all (\<lambda>p. float p < 0 \<longrightarrow> str p \<noteq> [])
     [\<lparr>float = 90, str = ''90''\<rparr>, \<lparr>float = - 90, str = ''-90''\<rparr>] \<and>
   is_float64 7 \<and>
   timersBody \<lparr>debug = False, persistCountKeys = 60, deleteGauges = False, postfix = [],
       flushInterval = 10, percentThreshold = []\<rparr> 0
     [\<lparr>float = 90, str = ''90''\<rparr>, \<lparr>float = - 90, str = ''-90''\<rparr>] (''t'', [7])
     (0, [], \<lparr>counters = [], gauges = [], timers = [(''t'', [7])], sets = [],
              countInactivity = []\<rparr>) =
   Inr (1, [(''t.upper_90'', 7, 0), (''t.lower_90'', 7, 0), (''t.mean'', 7, 0),
            (''t.upper'', 7, 0), (''t.lower'', 7, 0), (''t.count'', 1, 0)],
        \<lparr>counters = [], gauges = [], timers = [], sets = [], countInactivity = []\<rparr>)"
proof -
  let ?C = "\<lparr>debug = False, persistCountKeys = 60, deleteGauges = False, postfix = [],
       flushInterval = 10, percentThreshold = []\<rparr>"
  let ?P = "[\<lparr>float = 90, str = ''90''\<rparr>, \<lparr>float = - 90, str = ''-90''\<rparr>]"
  have h1: "length (postfix ?C) \<le> length ''t''" by simp
  have h2: "list_all (\<lambda>p. float p < 0 \<longrightarrow> str p \<noteq> []) ?P" by simp
  have h3: "is_float64 7" by code_simp
  from single_sample_timer [OF h1 h2 h3, of 0 0 "[]"
      "\<lparr>counters = [], gauges = [], timers = [(''t'', [7])], sets = [], countInactivity = []\<rparr>"]
  show ?thesis using h1 h2 h3 by simp
qed

text \<open>
  C10. For a key at least as long as the postfix, the stem is the key without its last
  \<^verbatim>\<open>len(*postfix)\<close> bytes: the slice is in bounds, and the stem is the same for every
  postfix of that length, whatever its bytes are and whether or not the key ends with
  it (the key \<^verbatim>\<open>api.time\<close> with the postfix \<^verbatim>\<open>.ms\<close> gives \<^verbatim>\<open>api.t\<close>). The
  slice panics exactly when the postfix is longer than the key. Whenever the flush of a
  timer bucket returns, the key is at least as long as the postfix and the names of its
  records are exactly this stem, followed by \<^verbatim>\<open>.upper_\<close> or \<^verbatim>\<open>.lower_\<close> and the
  text of the percentile, or by \<^verbatim>\<open>.mean\<close>, \<^verbatim>\<open>.upper\<close>, \<^verbatim>\<open>.lower\<close> and
  \<^verbatim>\<open>.count\<close>, followed by the postfix; the open-falcon backend appends the packets
  of these records. The flush returns exactly for the buckets that are fine for the
  percentiles (\<open>timer_ok\<close>), and it panics under a postfix longer than the key.
\<close>

theorem timer_stem_positional:
  "(length pfx \<le> length k \<longrightarrow>
      bucketWithoutPostfix k pfx = Inr (take (length k - length pfx) k) \<and>
      (\<forall>pfx'. length pfx' = length pfx \<longrightarrow>
         bucketWithoutPostfix k pfx' = bucketWithoutPostfix k pfx)) \<and>
   (bucketWithoutPostfix k pfx = Inl SliceOutOfRange \<longleftrightarrow> length k < length pfx) \<and>
   bucketWithoutPostfix ''api.time'' ''.ms'' = Inr ''api.t'' \<and>
   (\<forall>n' ls s'. timersBody cfg now pctls (k, xs) (n, [], s) = Inr (n', ls, s') \<longrightarrow>
      length (postfix cfg) \<le> length k \<and>
      map fst ls =
        map (\<lambda>p. take (length k - length (postfix cfg)) k @
                  (if float p \<ge> 0 then ''.upper_'' @ str p
                   else ''.lower_'' @ drop 1 (str p)) @ postfix cfg) pctls @
        [take (length k - length (postfix cfg)) k @ ''.mean'' @ postfix cfg,
         take (length k - length (postfix cfg)) k @ ''.upper'' @ postfix cfg,
         take (length k - length (postfix cfg)) k @ ''.lower'' @ postfix cfg,
         take (length k - length (postfix cfg)) k @ ''.count'' @ postfix cfg] \<and>
      openFalcon_timersBody cfg now pctls (k, xs) (packets, s) =
        Inr (appendLines cfg ls packets, s')) \<and>
   (timer_ok cfg pctls (k, xs) \<longleftrightarrow>
      (\<exists>ls s'. timersBody cfg now pctls (k, xs) (n, [], s) = Inr (n + 1, ls, s'))) \<and>
   (length k < length (postfix cfg) \<longrightarrow>
      timersBody cfg now pctls (k, xs) (n, [], s) = Inl SliceOutOfRange \<and>
      openFalcon_timersBody cfg now pctls (k, xs) (packets, s) = Inl SliceOutOfRange)"
proof (intro conjI impI allI iffI)
  assume "length pfx \<le> length k"
  then show "bucketWithoutPostfix k pfx = Inr (take (length k - length pfx) k)"
    by (simp add: bucketWithoutPostfix_def nat_diff_distrib')
next
  fix pfx' :: string
  assume "length pfx' = length pfx"
  then show "bucketWithoutPostfix k pfx' = bucketWithoutPostfix k pfx"
    by (simp add: bucketWithoutPostfix_def)
next
  assume "bucketWithoutPostfix k pfx = Inl SliceOutOfRange"
  then show "length k < length pfx"
    by (simp add: bucketWithoutPostfix_def split: if_splits)
next
  assume "length k < length pfx"
  then show "bucketWithoutPostfix k pfx = Inl SliceOutOfRange"
    by (simp add: bucketWithoutPostfix_def)
next
  show "bucketWithoutPostfix ''api.time'' ''.ms'' = Inr ''api.t''"
    by (simp add: bucketWithoutPostfix_def)
next
  fix n' ls s'
  assume r: "timersBody cfg now pctls (k, xs) (n, [], s) = Inr (n', ls, s')"
  then show "length (postfix cfg) \<le> length k"
    by (auto simp: timersBody_def bucketWithoutPostfix_def split: if_splits)
  from timersBody_names [OF r]
  show "map fst ls =
        map (\<lambda>p. take (length k - length (postfix cfg)) k @
                  (if float p \<ge> 0 then ''.upper_'' @ str p
                   else ''.lower_'' @ drop 1 (str p)) @ postfix cfg) pctls @
        [take (length k - length (postfix cfg)) k @ ''.mean'' @ postfix cfg,
         take (length k - length (postfix cfg)) k @ ''.upper'' @ postfix cfg,
         take (length k - length (postfix cfg)) k @ ''.lower'' @ postfix cfg,
         take (length k - length (postfix cfg)) k @ ''.count'' @ postfix cfg]"
    by simp
  from r show "openFalcon_timersBody cfg now pctls (k, xs) (packets, s) =
        Inr (appendLines cfg ls packets, s')"
    by (rule openFalcon_timersBody_of(1))
next
  assume ok: "timer_ok cfg pctls (k, xs)"
  from timersBody_ok [OF ok, of now n "[]" s]
  show "\<exists>ls s'. timersBody cfg now pctls (k, xs) (n, [], s) = Inr (n + 1, ls, s')"
    by simp
next
  assume "\<exists>ls s'. timersBody cfg now pctls (k, xs) (n, [], s) = Inr (n + 1, ls, s')"
  then show "timer_ok cfg pctls (k, xs)"
    by (auto dest: timersBody_Inr_ok)
next
  assume s: "length k < length (postfix cfg)"
  show "timersBody cfg now pctls (k, xs) (n, [], s) = Inl SliceOutOfRange"
    using s by (rule timersBody_short_key)
  then show "openFalcon_timersBody cfg now pctls (k, xs) (packets, s) = Inl SliceOutOfRange"
    by (rule openFalcon_timersBody_of(2))
qed

theorem timer_stem_positional_witness:
  "length ''.ms'' \<le> length ''api.time'' \<and>
   bucketWithoutPostfix ''api.time'' ''.ms'' =
     Inr (take (length ''api.time'' - length ''.ms'') ''api.time'') \<and>
   length ''abc'' = length ''.ms'' \<and>
   bucketWithoutPostfix ''api.time'' ''abc'' = bucketWithoutPostfix ''api.time'' ''.ms'' \<and>
   timer_ok \<lparr>debug = False, persistCountKeys = 60, deleteGauges = False, postfix = ''.ms'',
       flushInterval = 10, percentThreshold = []\<rparr> [\<lparr>float = 90, str = ''90''\<rparr>]
     (''api.time'', [4, 9]) \<and>
   timersBody \<lparr>debug = False, persistCountKeys = 60, deleteGauges = False,
       postfix = ''.ms'', flushInterval = 10, percentThreshold = []\<rparr> 0
       [\<lparr>float = 90, str = ''90''\<rparr>] (''api.time'', [4, 9])
       (0, [], \<lparr>counters = [], gauges = [], timers = [(''api.time'', [4, 9])], sets = [],
                countInactivity = []\<rparr>) =
     Inr (1, [(''api.t.upper_90.ms'', 9, 0), (''api.t.mean.ms'', 13 / 2, 0),
              (''api.t.upper.ms'', 9, 0), (''api.t.lower.ms'', 4, 0),
              (''api.t.count.ms'', 2, 0)],
          \<lparr>counters = [], gauges = [], timers = [], sets = [], countInactivity = []\<rparr>) \<and>
   map fst [(''api.t.upper_90.ms'', 9 :: rat, 0 :: int), (''api.t.mean.ms'', 13 / 2, 0),
            (''api.t.upper.ms'', 9, 0), (''api.t.lower.ms'', 4, 0),
            (''api.t.count.ms'', 2, 0)] =
     [''api.t.upper_90.ms'', ''api.t.mean.ms'', ''api.t.upper.ms'', ''api.t.lower.ms'',
      ''api.t.count.ms''] \<and>
   length ''ab'' < length ''.ms'' \<and>
   bucketWithoutPostfix ''ab'' ''.ms'' = Inl SliceOutOfRange \<and>
   timersBody \<lparr>debug = False, persistCountKeys = 60, deleteGauges = False,
       postfix = ''.ms'', flushInterval = 10, percentThreshold = []\<rparr> 0
       [\<lparr>float = 90, str = ''90''\<rparr>] (''ab'', [4, 9])
       (0, [], \<lparr>counters = [], gauges = [], timers = [(''ab'', [4, 9])], sets = [],
                countInactivity = []\<rparr>) = Inl SliceOutOfRange"
proof -
  let ?C = "\<lparr>debug = False, persistCountKeys = 60, deleteGauges = False, postfix = ''.ms'',
       flushInterval = 10, percentThreshold = []\<rparr>"
  let ?P = "[\<lparr>float = 90, str = ''90''\<rparr>]"
  let ?S = "\<lparr>counters = [], gauges = [], timers = [(''api.time'', [4, 9])], sets = [],
                countInactivity = []\<rparr>"
  let ?S' = "\<lparr>counters = [], gauges = [], timers = [(''ab'', [4, 9])], sets = [],
                countInactivity = []\<rparr>"
  let ?LS = "[(''api.t.upper_90.ms'', 9 :: rat, 0 :: int), (''api.t.mean.ms'', 13 / 2, 0),
              (''api.t.upper.ms'', 9, 0), (''api.t.lower.ms'', 4, 0),
              (''api.t.count.ms'', 2, 0)]"
  have h1: "length ''.ms'' \<le> length ''api.time''" by simp
  have h2: "length ''abc'' = length ''.ms''" by simp
  have h3: "length ''ab'' < length (postfix ?C)" by simp
  have h4: "timer_ok ?C ?P (''api.time'', [4, 9])" by code_simp
  have h5: "timersBody ?C 0 ?P (''api.time'', [4, 9]) (0, [], ?S) =
      Inr (1, ?LS, \<lparr>counters = [], gauges = [], timers = [], sets = [], countInactivity = []\<rparr>)"
    by code_simp
  note t = timer_stem_positional [of "''.ms''" "''api.time''" ?C 0 ?P "[4, 9]" 0 ?S "[]"]
  note t' = timer_stem_positional [of "''.ms''" "''ab''" ?C 0 ?P "[4, 9]" 0 ?S' "[]"]
  have a: "bucketWithoutPostfix ''api.time'' ''.ms'' =
             Inr (take (length ''api.time'' - length ''.ms'') ''api.time'')"
    and b: "bucketWithoutPostfix ''api.time'' ''abc'' = bucketWithoutPostfix ''api.time'' ''.ms''"
    using t h1 h2 by blast+
  from t h5 have "map fst ?LS =
        map (\<lambda>p. take (length ''api.time'' - length (postfix ?C)) ''api.time'' @
                  (if float p \<ge> 0 then ''.upper_'' @ str p
                   else ''.lower_'' @ drop 1 (str p)) @ postfix ?C) ?P @
        [take (length ''api.time'' - length (postfix ?C)) ''api.time'' @ ''.mean'' @ postfix ?C,
         take (length ''api.time'' - length (postfix ?C)) ''api.time'' @ ''.upper'' @ postfix ?C,
         take (length ''api.time'' - length (postfix ?C)) ''api.time'' @ ''.lower'' @ postfix ?C,
         take (length ''api.time'' - length (postfix ?C)) ''api.time'' @ ''.count'' @ postfix ?C]"
    by blast
  then have c: "map fst ?LS =
     [''api.t.upper_90.ms'', ''api.t.mean.ms'', ''api.t.upper.ms'', ''api.t.lower.ms'',
      ''api.t.count.ms'']"
    by simp
  have d: "bucketWithoutPostfix ''ab'' ''.ms'' = Inl SliceOutOfRange"
    and e: "timersBody ?C 0 ?P (''ab'', [4, 9]) (0, [], ?S') = Inl SliceOutOfRange"
    using t' h3 by simp_all
  show ?thesis using h1 h2 h3 h4 h5 a b c d e by simp
qed

subsection \<open>Counters\<close>

text \<open>
  C5. For a key of the counters mapping holding the value \<open>v\<close>, in both backends: the
  flush emits exactly one record named by the key, carrying \<open>v\<close>; after the flush the
  counters mapping is empty, so the key is absent from it; the first loop resets the
  inactivity count of the key to 0, and the second loop of the same flush increments it,
  so that after the flush the count is 1 when \<^verbatim>\<open>*persistCountKeys\<close> is at least 1, and
  the key is absent from the inactivity mapping otherwise. When the store was filled from
  empty counters by a sequence of increments, \<open>v\<close> is the sum of the increments of the key.
\<close>

theorem counter_flush_emit_and_reset:
  assumes "distinct (map fst (counters s))" and "distinct (map fst (countInactivity s))"
    and "map_of (counters s) k = Some v"
  shows "filter (\<lambda>l. fst l = k) (fst (snd (processCounters cfg now ([], s)))) = [(k, v, now)] \<and>
    counters (snd (snd (processCounters cfg now ([], s)))) = [] \<and>
    map_of (countInactivity (snd (snd (fold (countersBody now) (counters s) (0, [], s))))) k =
      Some 0 \<and>
    map_of (countInactivity (snd (snd (processCounters cfg now ([], s))))) k =
      (if 1 \<le> persistCountKeys cfg then Some 1 else None) \<and>
    openFalcon_processCounters cfg now (packets, s) =
      (appendLines cfg (fst (snd (processCounters cfg now ([], s)))) packets,
       snd (snd (processCounters cfg now ([], s)))) \<and>
    (\<forall>s0 evs. s = fold incrementCounter evs s0 \<and> counters s0 = [] \<longrightarrow>
       v = sum_list (map snd (filter (\<lambda>e. fst e = k) evs)))"
proof -
  from assms(3) have "(k, v) \<in> set (counters s)" by (rule map_of_SomeD)
  then have kin: "k \<in> fst ` set (counters s)" by force
  then have z: "map_of (zeroed (counters s) (countInactivity s)) k = Some 0"
    by (simp add: map_of_zeroed)
  note pk = processCounters_key [OF assms(1,2)]
  have 1: "filter (\<lambda>l. fst l = k) (fst (snd (processCounters cfg now ([], s)))) = [(k, v, now)]"
    by (simp add: pk(1) assms(3) z)
  have 2: "counters (snd (snd (processCounters cfg now ([], s)))) = []"
    by (rule pk(4))
  have 3: "map_of (countInactivity (snd (snd (fold (countersBody now) (counters s) (0, [], s))))) k =
      Some 0"
    by (simp add: fold_countersBody z)
  have 4: "map_of (countInactivity (snd (snd (processCounters cfg now ([], s))))) k =
      (if 1 \<le> persistCountKeys cfg then Some 1 else None)"
    by (simp add: pk(2) z)
  have 5: "openFalcon_processCounters cfg now (packets, s) =
      (appendLines cfg (fst (snd (processCounters cfg now ([], s)))) packets,
       snd (snd (processCounters cfg now ([], s))))"
    by (rule openFalcon_processCounters_of)
  have 6: "v = sum_list (map snd (filter (\<lambda>e. fst e = k) evs))"
    if "s = fold incrementCounter evs s0 \<and> counters s0 = []" for s0 evs
  proof -
    from that assms(3) have "map_of (counters (fold incrementCounter evs s0)) k = Some v"
      and e: "counters s0 = []" by simp_all
    then show ?thesis
      by (simp add: incrementCounter_sum split: if_splits)
  qed
  from 1 2 3 4 5 6 show ?thesis by blast
qed

theorem counter_flush_emit_and_reset_witness:
  "distinct (map fst (counters (fold incrementCounter [(''hits'', 3), (''hits'', 2)]
      \<lparr>counters = [], gauges = [], timers = [], sets = [], countInactivity = []\<rparr>))) \<and>
   map_of (counters (fold incrementCounter [(''hits'', 3), (''hits'', 2)]
      \<lparr>counters = [], gauges = [], timers = [], sets = [], countInactivity = []\<rparr>)) ''hits'' =
     Some 5 \<and>
   filter (\<lambda>l. fst l = ''hits'')
     (fst (snd (processCounters \<lparr>debug = False, persistCountKeys = 60, deleteGauges = False,
          postfix = [], flushInterval = 10, percentThreshold = []\<rparr> 7
        ([], fold incrementCounter [(''hits'', 3), (''hits'', 2)]
           \<lparr>counters = [], gauges = [], timers = [], sets = [], countInactivity = []\<rparr>)))) =
     [(''hits'', 5, 7)] \<and>
   map_of (countInactivity (snd (snd (processCounters \<lparr>debug = False, persistCountKeys = 60,
          deleteGauges = False, postfix = [], flushInterval = 10, percentThreshold = []\<rparr> 7
        ([], fold incrementCounter [(''hits'', 3), (''hits'', 2)]
           \<lparr>counters = [], gauges = [], timers = [], sets = [], countInactivity = []\<rparr>)))))
     ''hits'' = Some 1"
proof -
  let ?C = "\<lparr>debug = False, persistCountKeys = 60, deleteGauges = False,
          postfix = [], flushInterval = 10, percentThreshold = []\<rparr>"
  let ?S0 = "\<lparr>counters = [], gauges = [], timers = [], sets = [], countInactivity = []\<rparr>"
  let ?S = "fold incrementCounter [(''hits'', 3), (''hits'', 2)] ?S0"
  have S: "?S = \<lparr>counters = [(''hits'', 5)], gauges = [], timers = [], sets = [],
      countInactivity = []\<rparr>"
    by (simp add: incrementCounter_def)
  have h1: "distinct (map fst (counters ?S))" unfolding S by simp
  have h2: "distinct (map fst (countInactivity ?S))" unfolding S by simp
  have h3: "map_of (counters ?S) ''hits'' = Some 5" unfolding S by simp
  from counter_flush_emit_and_reset [OF h1 h2 h3, of ?C 7 "[]"]
  have "filter (\<lambda>l. fst l = ''hits'') (fst (snd (processCounters ?C 7 ([], ?S)))) =
      [(''hits'', 5, 7)]"
    and "map_of (countInactivity (snd (snd (processCounters ?C 7 ([], ?S))))) ''hits'' =
      (if 1 \<le> persistCountKeys ?C then Some 1 else None)"
    by blast+
  then show ?thesis using h1 h3 by simp
qed

text \<open>
  The claim as the specification states it, with an inactivity count of 0 immediately
  after the flush, fails: after the flush the count of a key that was flushed is 1.
\<close>

theorem counter_inactivity_after_flush_counterexample:
  "processCounters \<lparr>debug = False, persistCountKeys = 60, deleteGauges = False, postfix = [],
       flushInterval = 10, percentThreshold = []\<rparr> 7
     ([], \<lparr>counters = [(''hits'', 5)], gauges = [], timers = [], sets = [],
           countInactivity = []\<rparr>) =
   (1, [(''hits'', 5, 7)],
    \<lparr>counters = [], gauges = [], timers = [], sets = [], countInactivity = [(''hits'', 1)]\<rparr>) \<and>
   lookup0 (countInactivity (snd (snd (processCounters \<lparr>debug = False, persistCountKeys = 60,
       deleteGauges = False, postfix = [], flushInterval = 10, percentThreshold = []\<rparr> 7
     ([], \<lparr>counters = [(''hits'', 5)], gauges = [], timers = [], sets = [],
           countInactivity = []\<rparr>))))) ''hits'' \<noteq> 0 \<and>
   snd (openFalcon_processCounters \<lparr>debug = False, persistCountKeys = 60, deleteGauges = False,
       postfix = [], flushInterval = 10, percentThreshold = []\<rparr> 7
     ([], \<lparr>counters = [(''hits'', 5)], gauges = [], timers = [], sets = [],
           countInactivity = []\<rparr>)) =
    \<lparr>counters = [], gauges = [], timers = [], sets = [], countInactivity = [(''hits'', 1)]\<rparr>"
  by (simp add: processCounters_def countersBody_def inactivityBody_def lookup0_def
      openFalcon_processCounters_def openFalcon_countersBody_def openFalcon_inactivityBody_def
      appendPacket_def)

text \<open>
  C2. A key \<open>k\<close> is in the counters mapping with the value \<open>v\<close> at the first flush of
  a run and receives no data afterwards (the counters of the later cycles do not contain
  it; other keys come and go). Then, in both backends: the first flush emits the record
  of \<open>v\<close> and no other record for the key; the \<open>j\<close>-th later flush emits exactly one
  record for the key, of value 0, when \<open>j\<close> is at most \<^verbatim>\<open>*persistCountKeys\<close>, and no
  record for it when \<open>j\<close> is larger; and after the run the key is in the inactivity mapping
  only if the run had fewer than \<^verbatim>\<open>*persistCountKeys\<close> later flushes.
\<close>

theorem counter_zero_fill_cycles:
  assumes "distinct (map fst (countInactivity s))"
    and "distinct (map fst c0)" and "map_of c0 k = Some v"
    and "list_all (\<lambda>(now, incoming). distinct (map fst incoming) \<and> k \<notin> fst ` set incoming) rest"
  shows "filter (\<lambda>l. fst l = k) (fst (counterCycles cfg ((now0, c0) # rest) s) ! 0) =
      [(k, v, now0)] \<and>
    (\<forall>j<length rest.
       filter (\<lambda>l. fst l = k) (fst (counterCycles cfg ((now0, c0) # rest) s) ! Suc j) =
         (if int (Suc j) \<le> persistCountKeys cfg then [(k, 0, fst (rest ! j))] else [])) \<and>
    map_of (countInactivity (snd (counterCycles cfg ((now0, c0) # rest) s))) k =
      (if int (length rest) < persistCountKeys cfg then Some (1 + int (length rest)) else None) \<and>
    openFalcon_counterCycles cfg ((now0, c0) # rest) s =
      (map (\<lambda>ls. appendLines cfg ls []) (fst (counterCycles cfg ((now0, c0) # rest) s)),
       snd (counterCycles cfg ((now0, c0) # rest) s))"
proof -
  let ?s0 = "s\<lparr>counters := c0\<rparr>"
  let ?r = "processCounters cfg now0 ([], ?s0)"
  let ?s1 = "snd (snd ?r)"
  let ?m1 = "if 1 \<le> persistCountKeys cfg then Some (1 :: int) else None"
  have d0: "distinct (map fst (counters ?s0))" "distinct (map fst (countInactivity ?s0))"
    using assms(1,2) by simp_all
  from assms(3) have "(k, v) \<in> set c0" by (rule map_of_SomeD)
  then have kin: "k \<in> fst ` set c0" by force
  have z: "map_of (zeroed c0 (countInactivity s)) k = Some 0"
    using kin by (simp add: map_of_zeroed)
  note pk = processCounters_key [OF d0]
  have l0: "filter (\<lambda>l. fst l = k) (fst (snd ?r)) = [(k, v, now0)]"
    by (simp add: pk(1) z assms(3))
  have m1: "map_of (countInactivity ?s1) k = ?m1"
    by (simp add: pk(2) z)
  have inv1: "case ?m1 of None \<Rightarrow> True | Some c \<Rightarrow> 1 \<le> c \<and> c \<le> persistCountKeys cfg"
    by simp
  note ci = cycles_inactive [OF pk(3) assms(4) m1 inv1]
  have cc: "counterCycles cfg ((now0, c0) # rest) s =
      (fst (snd ?r) # fst (counterCycles cfg rest ?s1), snd (counterCycles cfg rest ?s1))"
    by (simp split: prod.splits)
  have a: "filter (\<lambda>l. fst l = k) (fst (counterCycles cfg ((now0, c0) # rest) s) ! 0) =
      [(k, v, now0)]"
    by (simp add: cc l0 del: counterCycles.simps)
  have b: "filter (\<lambda>l. fst l = k) (fst (counterCycles cfg ((now0, c0) # rest) s) ! Suc j) =
         (if int (Suc j) \<le> persistCountKeys cfg then [(k, 0, fst (rest ! j))] else [])"
    if "j < length rest" for j
  proof -
    from ci that have "filter (\<lambda>l. fst l = k) (fst (counterCycles cfg rest ?s1) ! j) =
        (case ?m1 of None \<Rightarrow> []
         | Some c \<Rightarrow> if c + int j \<le> persistCountKeys cfg then [(k, 0, fst (rest ! j))] else [])"
      by blast
    then show ?thesis by (auto simp: cc simp del: counterCycles.simps)
  qed
  have c: "map_of (countInactivity (snd (counterCycles cfg ((now0, c0) # rest) s))) k =
      (if int (length rest) < persistCountKeys cfg then Some (1 + int (length rest)) else None)"
    using ci by (auto simp: cc simp del: counterCycles.simps)
  have d: "openFalcon_counterCycles cfg ((now0, c0) # rest) s =
      (map (\<lambda>ls. appendLines cfg ls []) (fst (counterCycles cfg ((now0, c0) # rest) s)),
       snd (counterCycles cfg ((now0, c0) # rest) s))"
    by (rule openFalcon_counterCycles_of)
  from a b c d show ?thesis by blast
qed

theorem counter_zero_fill_cycles_witness:
  "distinct (map fst (countInactivity
      \<lparr>counters = [], gauges = [], timers = [], sets = [], countInactivity = []\<rparr>)) \<and>
   distinct (map fst [(''hits'', 5 :: rat)]) \<and>
   map_of [(''hits'', 5 :: rat)] ''hits'' = Some 5 \<and>
   list_all (\<lambda>(now, incoming). distinct (map fst incoming) \<and> ''hits'' \<notin> fst ` set incoming)
     [(20, []), (30, [(''other'', 1 :: rat)]), (40 :: int, [])] \<and>
   fst (counterCycles \<lparr>debug = False, persistCountKeys = 2, deleteGauges = False, postfix = [],
         flushInterval = 10, percentThreshold = []\<rparr>
       [(10, [(''hits'', 5)]), (20, []), (30, [(''other'', 1)]), (40, [])]
       \<lparr>counters = [], gauges = [], timers = [], sets = [], countInactivity = []\<rparr>) =
     [[(''hits'', 5, 10)], [(''hits'', 0, 20)], [(''other'', 1, 30), (''hits'', 0, 30)],
      [(''other'', 0, 40)]] \<and>
   filter (\<lambda>l. fst l = ''hits'')
     (fst (counterCycles \<lparr>debug = False, persistCountKeys = 2, deleteGauges = False, postfix = [],
         flushInterval = 10, percentThreshold = []\<rparr>
       [(10, [(''hits'', 5)]), (20, []), (30, [(''other'', 1)]), (40, [])]
       \<lparr>counters = [], gauges = [], timers = [], sets = [], countInactivity = []\<rparr>) ! Suc 2) =
     [] \<and>
   map_of (countInactivity (snd (counterCycles \<lparr>debug = False, persistCountKeys = 2,
         deleteGauges = False, postfix = [], flushInterval = 10, percentThreshold = []\<rparr>
       [(10, [(''hits'', 5)]), (20, []), (30, [(''other'', 1)]), (40, [])]
       \<lparr>counters = [], gauges = [], timers = [], sets = [], countInactivity = []\<rparr>)))
     ''hits'' = None"
proof -
  let ?C = "\<lparr>debug = False, persistCountKeys = 2, deleteGauges = False, postfix = [],
         flushInterval = 10, percentThreshold = []\<rparr>"
  let ?S = "\<lparr>counters = [], gauges = [], timers = [], sets = [], countInactivity = []\<rparr>"
  let ?rest = "[(20, []), (30, [(''other'', 1 :: rat)]), (40 :: int, [])]"
  have h1: "distinct (map fst (countInactivity ?S))" by simp
  have h2: "distinct (map fst [(''hits'', 5 :: rat)])" by simp
  have h3: "map_of [(''hits'', 5 :: rat)] ''hits'' = Some 5" by simp
  have h4: "list_all (\<lambda>(now, incoming). distinct (map fst incoming) \<and>
      ''hits'' \<notin> fst ` set incoming) ?rest" by simp
  note t = counter_zero_fill_cycles [OF h1 h2 h3 h4, of ?C 10]
  have j: "2 < length ?rest" by simp
  from t j have "filter (\<lambda>l. fst l = ''hits'')
      (fst (counterCycles ?C ((10, [(''hits'', 5)]) # ?rest) ?S) ! Suc 2) =
      (if int (Suc 2) \<le> persistCountKeys ?C then [(''hits'', 0, fst (?rest ! 2))] else [])"
    by blast
  then have a: "filter (\<lambda>l. fst l = ''hits'')
      (fst (counterCycles ?C ((10, [(''hits'', 5)]) # ?rest) ?S) ! Suc 2) = []"
    by (simp del: counterCycles.simps)
  from t have "map_of (countInactivity (snd (counterCycles ?C ((10, [(''hits'', 5)]) # ?rest) ?S)))
      ''hits'' = (if int (length ?rest) < persistCountKeys ?C
                  then Some (1 + int (length ?rest)) else None)"
    by blast
  then have b: "map_of (countInactivity (snd (counterCycles ?C ((10, [(''hits'', 5)]) # ?rest) ?S)))
      ''hits'' = None"
    by (simp del: counterCycles.simps)
  have c: "fst (counterCycles ?C ((10, [(''hits'', 5)]) # ?rest) ?S) =
     [[(''hits'', 5, 10)], [(''hits'', 0, 20)], [(''other'', 1, 30), (''hits'', 0, 30)],
      [(''other'', 0, 40)]]"
    by (simp add: processCounters_def countersBody_def inactivityBody_def lookup0_def)
  show ?thesis using h1 h2 h3 h4 a b c by blast
qed

subsection \<open>Submit\<close>

text \<open>
  C3. A flush cycle whose four flush procedures return without a panic and count zero
  records in total. The open-falcon backend performs no network operation and returns
  success. The graphite backend dials before it drains: it never writes, but it performs
  the dial and, when the dial succeeds, sets the deadline and closes the connection; it
  returns success when the dial and the deadline succeed, and the error of the dial or
  of the deadline otherwise.
\<close>

theorem submit_zero_records:
  assumes c: "processCounters cfg now ([], s) = (n1, b1, s1)"
    and g: "processGauges cfg now (b1, s1) = (n2, b2, s2)"
    and t: "processTimers cfg now (percentThreshold cfg) (b2, s2) = Inr (n3, b3, s3)"
    and e: "processSets now (b3, s3) = (n4, b4, s4)"
    and z: "n1 + n2 + n3 + n4 = 0"
  shows "openFalcon_submit cfg net now ([], s) = Inr (None, [], [], s4) \<and>
    graphite_submit cfg net now s =
      (if \<not> dial_ok net then Inr (Some DialFailed, [Dial], if debug cfg then s4 else s)
       else if \<not> setDeadline_ok net then Inr (Some SetDeadlineFailed, [Dial, SetDeadline, Close], s)
       else Inr (None, [Dial, SetDeadline, Close], s4))"
proof -
  from processCounters_frame [of cfg now "[]" s] c have n1: "n1 = int (length b1)" by auto
  from g have n2: "n2 = int (length (gauges s1))"
    and b2: "b2 = b1 @ map (\<lambda>(k, v). (k, v, now)) (gauges s1)"
    by (simp_all add: processGauges_closed)
  note n3 = processTimers_zero [OF t]
  from e have n4: "n4 = int (length (sets s3))"
    and b4: "b4 = b3 @ map (\<lambda>(k, ms). (k, of_nat (card (set ms)), now)) (sets s3)"
    by (simp_all add: processSets_closed)
  from z n1 n2 n3(1) n4 have zs: "n1 = 0" "n2 = 0" "n3 = 0" "n4 = 0" by linarith+
  from zs n1 have e1: "b1 = []" by simp
  from zs n2 b2 e1 have e2: "b2 = []" by simp
  from n3(2) zs e2 have e3: "b3 = []" "s3 = s2" by simp_all
  from zs n4 b4 e3 have e4: "b4 = []" by simp
  note c' = c [unfolded e1]
  note g' = g [unfolded e1 e2]
  note t' = t [unfolded e2 e3]
  note e' = e [unfolded e3 e4]
  have oc: "openFalcon_processCounters cfg now ([], s) = ([], s1)"
    by (simp add: openFalcon_processCounters_of c' appendLines_Nil)
  have og: "openFalcon_processGauges cfg now ([], s1) = ([], s2)"
    using openFalcon_processGauges_of [OF g', of "[]"] by (simp add: appendLines_Nil)
  have ot: "openFalcon_processTimers cfg now (percentThreshold cfg) ([], s2) = Inr ([], s2)"
    using openFalcon_processTimers_of [OF t', of "[]"] by (simp add: appendLines_Nil)
  have os: "openFalcon_processSets cfg now ([], s2) = ([], s4)"
    using openFalcon_processSets_of [OF e', of cfg "[]"] by (simp add: appendLines_Nil)
  have 1: "openFalcon_submit cfg net now ([], s) = Inr (None, [], [], s4)"
    by (simp add: openFalcon_submit_def oc og ot os)
  have 2: "graphite_submit cfg net now s =
      (if \<not> dial_ok net then Inr (Some DialFailed, [Dial], if debug cfg then s4 else s)
       else if \<not> setDeadline_ok net then Inr (Some SetDeadlineFailed, [Dial, SetDeadline, Close], s)
       else Inr (None, [Dial, SetDeadline, Close], s4))"
    using zs by (simp add: graphite_submit_def c' g' t' e')
  from 1 2 show ?thesis by blast
qed

theorem submit_zero_records_witness:
  "processCounters \<lparr>debug = True, persistCountKeys = 60, deleteGauges = False, postfix = [],
       flushInterval = 10, percentThreshold = []\<rparr> 7
     ([], \<lparr>counters = [], gauges = [], timers = [], sets = [], countInactivity = []\<rparr>) =
     (0, [], \<lparr>counters = [], gauges = [], timers = [], sets = [], countInactivity = []\<rparr>) \<and>
   openFalcon_submit \<lparr>debug = True, persistCountKeys = 60, deleteGauges = False, postfix = [],
       flushInterval = 10, percentThreshold = []\<rparr>
     \<lparr>dial_ok = False, setDeadline_ok = False, write_ok = False, marshal_ok = False,
        do_ok = False\<rparr> 7
     ([], \<lparr>counters = [], gauges = [], timers = [], sets = [], countInactivity = []\<rparr>) =
     Inr (None, [], [],
          \<lparr>counters = [], gauges = [], timers = [], sets = [], countInactivity = []\<rparr>) \<and>
   graphite_submit \<lparr>debug = True, persistCountKeys = 60, deleteGauges = False, postfix = [],
       flushInterval = 10, percentThreshold = []\<rparr>
     \<lparr>dial_ok = True, setDeadline_ok = True, write_ok = False, marshal_ok = False,
        do_ok = False\<rparr> 7
     \<lparr>counters = [], gauges = [], timers = [], sets = [], countInactivity = []\<rparr> =
     Inr (None, [Dial, SetDeadline, Close],
          \<lparr>counters = [], gauges = [], timers = [], sets = [], countInactivity = []\<rparr>)"
proof -
  let ?C = "\<lparr>debug = True, persistCountKeys = 60, deleteGauges = False, postfix = [],
       flushInterval = 10, percentThreshold = []\<rparr>"
  let ?S = "\<lparr>counters = [], gauges = [], timers = [], sets = [], countInactivity = []\<rparr>"
  let ?N1 = "\<lparr>dial_ok = False, setDeadline_ok = False, write_ok = False, marshal_ok = False,
        do_ok = False\<rparr>"
  let ?N2 = "\<lparr>dial_ok = True, setDeadline_ok = True, write_ok = False, marshal_ok = False,
        do_ok = False\<rparr>"
  have c: "processCounters ?C 7 ([], ?S) = (0, [], ?S)"
    by (simp add: processCounters_def)
  have g: "processGauges ?C 7 ([], ?S) = (0, [], ?S)"
    by (simp add: processGauges_def)
  have t: "processTimers ?C 7 (percentThreshold ?C) ([], ?S) = Inr (0, [], ?S)"
    by (simp add: processTimers_def)
  have e: "processSets 7 ([], ?S) = (0, [], ?S)"
    by (simp add: processSets_def)
  have z: "(0 :: int) + 0 + 0 + 0 = 0" by simp
  from submit_zero_records [OF c g t e z, of ?N1]
  have a: "openFalcon_submit ?C ?N1 7 ([], ?S) = Inr (None, [], [], ?S)" by blast
  from submit_zero_records [OF c g t e z, of ?N2]
  have "graphite_submit ?C ?N2 7 ?S =
      (if \<not> dial_ok ?N2 then Inr (Some DialFailed, [Dial], if debug ?C then ?S else ?S)
       else if \<not> setDeadline_ok ?N2
         then Inr (Some SetDeadlineFailed, [Dial, SetDeadline, Close], ?S)
       else Inr (None, [Dial, SetDeadline, Close], ?S))"
    by blast
  then have b: "graphite_submit ?C ?N2 7 ?S = Inr (None, [Dial, SetDeadline, Close], ?S)"
    by simp
  show ?thesis using c a b by blast
qed

text \<open>
  The claim as the specification states it, for both backends, fails for the graphite
  backend on the empty store: it connects, and it returns an error when the dial fails.
\<close>

theorem graphite_submit_empty_store_counterexample:
  "graphite_submit \<lparr>debug = False, persistCountKeys = 60, deleteGauges = False, postfix = [],
       flushInterval = 10, percentThreshold = []\<rparr>
     \<lparr>dial_ok = True, setDeadline_ok = True, write_ok = True, marshal_ok = True,
        do_ok = True\<rparr> 7
     \<lparr>counters = [], gauges = [], timers = [], sets = [], countInactivity = []\<rparr> =
     Inr (None, [Dial, SetDeadline, Close],
          \<lparr>counters = [], gauges = [], timers = [], sets = [], countInactivity = []\<rparr>) \<and>
   graphite_submit \<lparr>debug = False, persistCountKeys = 60, deleteGauges = False, postfix = [],
       flushInterval = 10, percentThreshold = []\<rparr>
     \<lparr>dial_ok = False, setDeadline_ok = True, write_ok = True, marshal_ok = True,
        do_ok = True\<rparr> 7
     \<lparr>counters = [], gauges = [], timers = [], sets = [], countInactivity = []\<rparr> =
     Inr (Some DialFailed, [Dial],
          \<lparr>counters = [], gauges = [], timers = [], sets = [], countInactivity = []\<rparr>)"
  by (simp add: graphite_submit_def processCounters_def processGauges_def processTimers_def
      processSets_def)

text \<open>
  C6. The graphite backend, when \<^verbatim>\<open>net.Dial\<close> fails. Without \<^verbatim>\<open>*debug\<close>,
  \<^verbatim>\<open>submit\<close> returns the error and the store it was given, and its only network
  operation is the failed dial. With \<^verbatim>\<open>*debug\<close>, \<^verbatim>\<open>submit\<close> returns exactly when
  every timer bucket is fine for the percentiles (\<open>timer_ok\<close>), and panics in
  \<^verbatim>\<open>processTimers\<close> otherwise. When it returns, it has run the four flush procedures,
  it has written nothing (the buffer is dropped) and it returns the error: afterwards
  the counters, the timers and the sets are empty, the gauges are empty or unchanged as
  \<^verbatim>\<open>*deleteGauges\<close> says, and the inactivity mapping is the one that
  \<^verbatim>\<open>processCounters\<close> leaves.
\<close>

theorem graphite_dial_failure:
  assumes "\<not> dial_ok net"
  shows "(\<not> debug cfg \<longrightarrow> graphite_submit cfg net now s = Inr (Some DialFailed, [Dial], s)) \<and>
    (debug cfg \<and> list_all (timer_ok cfg (percentThreshold cfg)) (timers s) \<longrightarrow>
       graphite_submit cfg net now s =
         Inr (Some DialFailed, [Dial],
              \<lparr>counters = [],
                 gauges = (if deleteGauges cfg then [] else gauges s),
                 timers = [],
                 sets = [],
                 countInactivity =
                   countInactivity (snd (snd (processCounters cfg now ([], s))))\<rparr>)) \<and>
    (debug cfg \<longrightarrow>
       ((\<exists>r. graphite_submit cfg net now s = Inr r) \<longleftrightarrow>
        list_all (timer_ok cfg (percentThreshold cfg)) (timers s)))"
proof -
  from processCounters_frame [of cfg now "[]" s] obtain b1 ci
    where c: "processCounters cfg now ([], s) =
      (int (length b1), b1, s\<lparr>counters := [], countInactivity := ci\<rparr>)"
    by auto
  obtain s2 where s2: "s2 = (if deleteGauges cfg
      then s\<lparr>counters := [], countInactivity := ci, gauges := []\<rparr>
      else s\<lparr>counters := [], countInactivity := ci\<rparr>)"
    by blast
  have g: "processGauges cfg now (b1, s\<lparr>counters := [], countInactivity := ci\<rparr>) =
      (int (length (gauges s)), b1 @ map (\<lambda>(k, v). (k, v, now)) (gauges s), s2)"
    by (simp add: processGauges_closed s2)
  have tm: "timers s2 = timers s" by (simp add: s2)
  have nd: "graphite_submit cfg net now s = Inr (Some DialFailed, [Dial], s)" if "\<not> debug cfg"
    using assms that by (simp add: graphite_submit_def)
  have d: "graphite_submit cfg net now s =
         Inr (Some DialFailed, [Dial],
              \<lparr>counters = [],
                 gauges = (if deleteGauges cfg then [] else gauges s),
                 timers = [],
                 sets = [],
                 countInactivity =
                   countInactivity (snd (snd (processCounters cfg now ([], s))))\<rparr>)"
    if a: "debug cfg \<and> list_all (timer_ok cfg (percentThreshold cfg)) (timers s)"
  proof -
    have tk: "list_all (timer_ok cfg (percentThreshold cfg)) (timers s2)" using a by (simp add: tm)
    from processTimers_ok [OF tk, of now "b1 @ map (\<lambda>(k, v). (k, v, now)) (gauges s)"]
    obtain b3 where t: "processTimers cfg now (percentThreshold cfg)
          (b1 @ map (\<lambda>(k, v). (k, v, now)) (gauges s), s2) =
        Inr (int (length (timers s2)), b3, s2\<lparr>timers := []\<rparr>)"
      by blast
    have "graphite_submit cfg net now s =
        Inr (Some DialFailed, [Dial], s2\<lparr>timers := [], sets := []\<rparr>)"
      using assms a by (simp add: graphite_submit_def c g t processSets_closed)
    also have "s2\<lparr>timers := [], sets := []\<rparr> =
        \<lparr>counters = [], gauges = (if deleteGauges cfg then [] else gauges s), timers = [],
         sets = [],
         countInactivity = countInactivity (snd (snd (processCounters cfg now ([], s))))\<rparr>"
      by (simp add: c s2)
    finally show ?thesis .
  qed
  have n: "\<exists>p. graphite_submit cfg net now s = Inl p"
    if dbg: "debug cfg" and bad: "\<not> list_all (timer_ok cfg (percentThreshold cfg)) (timers s)"
  proof -
    from bad tm
    have "\<not> (\<exists>r. processTimers cfg now (percentThreshold cfg)
          (b1 @ map (\<lambda>(k, v). (k, v, now)) (gauges s), s2) = Inr r)"
      unfolding processTimers_Inr_iff by simp
    then obtain p where t: "processTimers cfg now (percentThreshold cfg)
          (b1 @ map (\<lambda>(k, v). (k, v, now)) (gauges s), s2) = Inl p"
      by (cases "processTimers cfg now (percentThreshold cfg)
          (b1 @ map (\<lambda>(k, v). (k, v, now)) (gauges s), s2)") auto
    have "graphite_submit cfg net now s = Inl p"
      using assms dbg by (simp add: graphite_submit_def c g t)
    then show ?thesis by blast
  qed
  have e: "(\<exists>r. graphite_submit cfg net now s = Inr r) \<longleftrightarrow>
        list_all (timer_ok cfg (percentThreshold cfg)) (timers s)" if dbg: "debug cfg"
  proof
    assume r: "\<exists>r. graphite_submit cfg net now s = Inr r"
    show "list_all (timer_ok cfg (percentThreshold cfg)) (timers s)"
    proof (rule ccontr)
      assume "\<not> list_all (timer_ok cfg (percentThreshold cfg)) (timers s)"
      from n [OF dbg this] obtain p where "graphite_submit cfg net now s = Inl p" by blast
      with r show False by simp
    qed
  next
    assume "list_all (timer_ok cfg (percentThreshold cfg)) (timers s)"
    with d dbg show "\<exists>r. graphite_submit cfg net now s = Inr r" by simp
  qed
  from nd d e show ?thesis by blast
qed

theorem graphite_dial_failure_witness:
  "\<not> dial_ok \<lparr>dial_ok = False, setDeadline_ok = True, write_ok = True, marshal_ok = True,
        do_ok = True\<rparr> \<and>
   \<not> debug \<lparr>debug = False, persistCountKeys = 60, deleteGauges = False, postfix = [],
       flushInterval = 10, percentThreshold = [\<lparr>float = 90, str = ''90''\<rparr>]\<rparr> \<and>
   graphite_submit \<lparr>debug = False, persistCountKeys = 60, deleteGauges = False, postfix = [],
       flushInterval = 10, percentThreshold = [\<lparr>float = 90, str = ''90''\<rparr>]\<rparr>
     \<lparr>dial_ok = False, setDeadline_ok = True, write_ok = True, marshal_ok = True,
        do_ok = True\<rparr> 7
     \<lparr>counters = [(''hits'', 5)], gauges = [(''load'', 3)], timers = [(''t'', [7])],
        sets = [(''users'', [''a''])], countInactivity = []\<rparr> =
     Inr (Some DialFailed, [Dial],
          \<lparr>counters = [(''hits'', 5)], gauges = [(''load'', 3)], timers = [(''t'', [7])],
             sets = [(''users'', [''a''])], countInactivity = []\<rparr>) \<and>
   debug \<lparr>debug = True, persistCountKeys = 60, deleteGauges = False, postfix = [],
       flushInterval = 10, percentThreshold = [\<lparr>float = 90, str = ''90''\<rparr>]\<rparr> \<and>
   list_all (timer_ok \<lparr>debug = True, persistCountKeys = 60, deleteGauges = False, postfix = [],
       flushInterval = 10, percentThreshold = [\<lparr>float = 90, str = ''90''\<rparr>]\<rparr>
       [\<lparr>float = 90, str = ''90''\<rparr>]) [(''t'', [7])] \<and>
   graphite_submit \<lparr>debug = True, persistCountKeys = 60, deleteGauges = False, postfix = [],
       flushInterval = 10, percentThreshold = [\<lparr>float = 90, str = ''90''\<rparr>]\<rparr>
     \<lparr>dial_ok = False, setDeadline_ok = True, write_ok = True, marshal_ok = True,
        do_ok = True\<rparr> 7
     \<lparr>counters = [(''hits'', 5)], gauges = [(''load'', 3)], timers = [(''t'', [7])],
        sets = [(''users'', [''a''])], countInactivity = []\<rparr> =
     Inr (Some DialFailed, [Dial],
          \<lparr>counters = [], gauges = [(''load'', 3)], timers = [], sets = [],
             countInactivity = [(''hits'', 1)]\<rparr>)"
proof -
  let ?C0 = "\<lparr>debug = False, persistCountKeys = 60, deleteGauges = False, postfix = [],
       flushInterval = 10, percentThreshold = [\<lparr>float = 90, str = ''90''\<rparr>]\<rparr>"
  let ?C1 = "\<lparr>debug = True, persistCountKeys = 60, deleteGauges = False, postfix = [],
       flushInterval = 10, percentThreshold = [\<lparr>float = 90, str = ''90''\<rparr>]\<rparr>"
  let ?N = "\<lparr>dial_ok = False, setDeadline_ok = True, write_ok = True, marshal_ok = True,
        do_ok = True\<rparr>"
  let ?S = "\<lparr>counters = [(''hits'', 5)], gauges = [(''load'', 3)], timers = [(''t'', [7])],
        sets = [(''users'', [''a''])], countInactivity = []\<rparr>"
  have h1: "\<not> dial_ok ?N" by simp
  have h2: "\<not> debug ?C0" by simp
  have h3: "debug ?C1" by simp
  have h4: "list_all (timer_ok ?C1 [\<lparr>float = 90, str = ''90''\<rparr>]) [(''t'', [7])]"
    by code_simp
  have h4': "list_all (timer_ok ?C1 (percentThreshold ?C1)) (timers ?S)"
    using h4 by simp
  have a: "graphite_submit ?C0 ?N 7 ?S = Inr (Some DialFailed, [Dial], ?S)"
    using graphite_dial_failure [OF h1, of ?C0 7 ?S] h2 by blast
  have pc: "countInactivity (snd (snd (processCounters ?C1 7 ([], ?S)))) = [(''hits'', 1)]"
    by (simp add: processCounters_def countersBody_def inactivityBody_def lookup0_def)
  have "graphite_submit ?C1 ?N 7 ?S =
      Inr (Some DialFailed, [Dial],
           \<lparr>counters = [], gauges = (if deleteGauges ?C1 then [] else gauges ?S), timers = [],
              sets = [],
              countInactivity = countInactivity (snd (snd (processCounters ?C1 7 ([], ?S))))\<rparr>)"
    using graphite_dial_failure [OF h1, of ?C1 7 ?S] h3 h4' by blast
  then have b: "graphite_submit ?C1 ?N 7 ?S =
      Inr (Some DialFailed, [Dial],
          \<lparr>counters = [], gauges = [(''load'', 3)], timers = [], sets = [],
             countInactivity = [(''hits'', 1)]\<rparr>)"
    unfolding pc by simp
  show ?thesis using h1 h2 h3 h4 a b by blast
qed

text \<open>
  The claim as the specification states it, for every store, fails with \<^verbatim>\<open>*debug\<close>
  when the index of a percentile is outside the samples of a timer bucket: for the
  percentile 5 and five samples the index is \<open>-1\<close>, \<^verbatim>\<open>processTimers\<close> panics after
  the counters and the gauges are drained, and \<^verbatim>\<open>submit\<close> returns no error.
\<close>

theorem graphite_dial_failure_debug_counterexample:
  "debug \<lparr>debug = True, persistCountKeys = 60, deleteGauges = False, postfix = [],
       flushInterval = 10, percentThreshold = [\<lparr>float = 5, str = ''5''\<rparr>]\<rparr> \<and>
   \<not> dial_ok \<lparr>dial_ok = False, setDeadline_ok = True, write_ok = True, marshal_ok = True,
        do_ok = True\<rparr> \<and>
   indexOfPerc \<lparr>float = 5, str = ''5''\<rparr> 5 = - 1 \<and>
   graphite_submit \<lparr>debug = True, persistCountKeys = 60, deleteGauges = False, postfix = [],
       flushInterval = 10, percentThreshold = [\<lparr>float = 5, str = ''5''\<rparr>]\<rparr>
     \<lparr>dial_ok = False, setDeadline_ok = True, write_ok = True, marshal_ok = True,
        do_ok = True\<rparr> 7
     \<lparr>counters = [(''hits'', 5)], gauges = [(''load'', 3)],
        timers = [(''t'', [1, 2, 3, 4, 5])], sets = [(''users'', [''a''])],
        countInactivity = []\<rparr> =
     Inl IndexOutOfRange"
  by code_simp

end
